theory Spec2Isabelle
  imports Complex_Main "HOL-Library.Word" "HOL-Library.Signed_Division"
begin

unbundle bit_operations_syntax

section \<open>The dither source (\<open>ranctx\<close>, \<open>ranval\<close>, \<open>raninit\<close>, \<open>r64i\<close>)\<close>

text \<open>
  \<^verbatim>\<open>typedef struct ranctx { uint64_t a; uint64_t b; uint64_t c; uint64_t d; } ranctx;\<close>
  The fields carry the prefix \<open>ctx_\<close> so that the one-letter names stay free for variables.
  \<open>uint64_t\<close> and \<open>int64_t\<close> are both \<open>64 word\<close>; \<open>uint\<close> and \<open>sint\<close> read them.
\<close>

record ranctx =
  ctx_a :: "64 word"
  ctx_b :: "64 word"
  ctx_c :: "64 word"
  ctx_d :: "64 word"

text \<open>\<^verbatim>\<open>#define rot(x, k) (((x) << (k)) | ((x) >> (64 - (k))))\<close> on \<open>uint64_t\<close>.\<close>

definition rot :: "64 word \<Rightarrow> nat \<Rightarrow> 64 word" where
  "rot x k = (push_bit k x) OR (drop_bit (64 - k) x)"

text \<open>
  \<open>ranval\<close> updates the context in place, one field after the other, and returns the new
  \<open>d\<close>. The model returns the value together with the updated context.
\<close>

definition ranval :: "ranctx \<Rightarrow> 64 word \<times> ranctx" where
  "ranval x =
     (let e = ctx_a x - rot (ctx_b x) 7;
          x1 = x\<lparr>ctx_a := ctx_b x XOR rot (ctx_c x) 13\<rparr>;
          x2 = x1\<lparr>ctx_b := ctx_c x1 + rot (ctx_d x1) 37\<rparr>;
          x3 = x2\<lparr>ctx_c := ctx_d x2 + e\<rparr>;
          x4 = x3\<lparr>ctx_d := e + ctx_a x3\<rparr>
      in (ctx_d x4, x4))"

text \<open>The loop \<^verbatim>\<open>for (i = 0; i < 20; ++i) (void)ranval(x);\<close> of \<open>raninit\<close>.\<close>

function raninit_loop :: "nat \<Rightarrow> ranctx \<Rightarrow> ranctx" where
  "raninit_loop i x = (if i < 20 then raninit_loop (i + 1) (snd (ranval x)) else x)"
  by pat_completeness auto
termination
  by (relation "measure (\<lambda>(i, x). 20 - i)") auto

definition raninit :: "ranctx \<Rightarrow> 64 word \<Rightarrow> ranctx" where
  "raninit x seed =
     raninit_loop 0 (x\<lparr>ctx_a := 0xf1ea5eed, ctx_b := seed, ctx_c := seed, ctx_d := seed\<rparr>)"

text \<open>
  The process-wide generator \<open>rx\<close> is threaded through explicitly:
  \<^verbatim>\<open>void r64init(uint64_t seed) { raninit(&rx, seed); }\<close>
  \<^verbatim>\<open>uint64_t r64u() { return (ranval(&rx)); }\<close>
  \<^verbatim>\<open>int64_t r64i() { return (ranval(&rx) >> 1); }\<close>
\<close>

definition r64init :: "64 word \<Rightarrow> ranctx \<Rightarrow> ranctx" where
  "r64init seed rx = raninit rx seed"

definition r64u :: "ranctx \<Rightarrow> 64 word \<times> ranctx" where
  "r64u rx = ranval rx"

definition r64i :: "ranctx \<Rightarrow> 64 word \<times> ranctx" where
  "r64i rx = (drop_bit 1 (fst (ranval rx)), snd (ranval rx))"

text \<open>
  The dither source in the words of the specification: the state after seeding, one draw
  with a 64-bit left rotation, and the sequence of the first \<open>n\<close> draws.
\<close>

definition spec_seed_state :: "64 word \<Rightarrow> ranctx" where
  "spec_seed_state seed = \<lparr>ctx_a = 0xf1ea5eed, ctx_b = seed, ctx_c = seed, ctx_d = seed\<rparr>"

definition spec_draw :: "ranctx \<Rightarrow> 64 word \<times> ranctx" where
  "spec_draw x =
     (let e = ctx_a x - word_rotl 7 (ctx_b x);
          a' = ctx_b x XOR word_rotl 13 (ctx_c x);
          b' = ctx_c x + word_rotl 37 (ctx_d x);
          c' = ctx_d x + e;
          d' = e + a'
      in (d', \<lparr>ctx_a = a', ctx_b = b', ctx_c = c', ctx_d = d'\<rparr>))"

fun draws :: "nat \<Rightarrow> ranctx \<Rightarrow> 64 word list" where
  "draws 0 x = []"
| "draws (Suc n) x = fst (ranval x) # draws n (snd (ranval x))"

text \<open>The values that \<open>k\<close> successive calls of \<open>r64i\<close> return.\<close>

fun r64i_draws :: "nat \<Rightarrow> ranctx \<Rightarrow> 64 word list" where
  "r64i_draws 0 rx = []"
| "r64i_draws (Suc k) rx = fst (r64i rx) # r64i_draws k (snd (r64i rx))"

section \<open>The zero-frame generator (\<open>generate_zero_frames\<close>)\<close>

text \<open>
  \<open>sps_format_t\<close>, in the order of \<open>sps_format_description_string_array\<close>:
  unknown, S8, U8, S16, S16_LE, S16_BE, S24, S24_LE, S24_BE, S24_3LE, S24_3BE, S32, S32_LE,
  S32_BE, auto, invalid.
\<close>

datatype sps_format_t =
    SPS_FORMAT_UNKNOWN
  | SPS_FORMAT_S8
  | SPS_FORMAT_U8
  | SPS_FORMAT_S16
  | SPS_FORMAT_S16_LE
  | SPS_FORMAT_S16_BE
  | SPS_FORMAT_S24
  | SPS_FORMAT_S24_LE
  | SPS_FORMAT_S24_BE
  | SPS_FORMAT_S24_3LE
  | SPS_FORMAT_S24_3BE
  | SPS_FORMAT_S32
  | SPS_FORMAT_S32_LE
  | SPS_FORMAT_S32_BE
  | SPS_FORMAT_AUTO
  | SPS_FORMAT_INVALID

text \<open>\<open>die\<close> logs the message and calls \<^verbatim>\<open>exit(EXIT_FAILURE)\<close>: the call does not return.\<close>

datatype fatal = Die

text \<open>
  The first \<^verbatim>\<open>switch (format)\<close>: the value of \<open>dither_mask\<close> when the switch is left, and
  then \<^verbatim>\<open>dither_mask -= 1;\<close>.
\<close>

fun dither_mask_switch :: "sps_format_t \<Rightarrow> fatal + 64 word" where
  "dither_mask_switch SPS_FORMAT_S32 = Inr (push_bit (64 - 32) 1)"
| "dither_mask_switch SPS_FORMAT_S32_LE = Inr (push_bit (64 - 32) 1)"
| "dither_mask_switch SPS_FORMAT_S32_BE = Inr (push_bit (64 - 32) 1)"
| "dither_mask_switch SPS_FORMAT_S24 = Inr (push_bit (64 - 24) 1)"
| "dither_mask_switch SPS_FORMAT_S24_LE = Inr (push_bit (64 - 24) 1)"
| "dither_mask_switch SPS_FORMAT_S24_BE = Inr (push_bit (64 - 24) 1)"
| "dither_mask_switch SPS_FORMAT_S24_3LE = Inr (push_bit (64 - 24) 1)"
| "dither_mask_switch SPS_FORMAT_S24_3BE = Inr (push_bit (64 - 24) 1)"
| "dither_mask_switch SPS_FORMAT_S16 = Inr (push_bit (64 - 16) 1)"
| "dither_mask_switch SPS_FORMAT_S16_LE = Inr (push_bit (64 - 16) 1)"
| "dither_mask_switch SPS_FORMAT_S16_BE = Inr (push_bit (64 - 16) 1)"
| "dither_mask_switch SPS_FORMAT_S8 = Inr (push_bit (64 - 8) 1)"
| "dither_mask_switch SPS_FORMAT_U8 = Inr (push_bit (64 - 8) 1)"
| "dither_mask_switch SPS_FORMAT_UNKNOWN = Inl Die"
| "dither_mask_switch SPS_FORMAT_AUTO = Inl Die"
| "dither_mask_switch SPS_FORMAT_INVALID = Inl Die"

definition dither_mask_of :: "sps_format_t \<Rightarrow> fatal + 64 word" where
  "dither_mask_of format =
     (case dither_mask_switch format of Inl e \<Rightarrow> Inl e | Inr m \<Rightarrow> Inr (m - 1))"

text \<open>
  \<^verbatim>\<open>(uint8_t)(hyper_sample >> k)\<close>: \<open>hyper_sample\<close> is an \<open>int64_t\<close>, so the shift is the
  arithmetic one; the cast keeps the low eight bits.
\<close>

definition byte_at :: "64 word \<Rightarrow> nat \<Rightarrow> 8 word" where
  "byte_at hyper_sample k = ucast (signed_drop_bit k hyper_sample)"

text \<open>
  \<^verbatim>\<open>*(int32_t *)op = v\<close> and \<^verbatim>\<open>*(int16_t *)op = v\<close> store in the byte order of the host, which
  the model takes as the parameter \<open>host_le\<close> (true on a little-endian host).
\<close>

definition store_int32 :: "bool \<Rightarrow> 32 word \<Rightarrow> 8 word list" where
  "store_int32 host_le v =
     (let bytes = [ucast v, ucast (drop_bit 8 v), ucast (drop_bit 16 v), ucast (drop_bit 24 v)]
      in if host_le then bytes else rev bytes)"

definition store_int16 :: "bool \<Rightarrow> 16 word \<Rightarrow> 8 word list" where
  "store_int16 host_le v =
     (let bytes = [ucast v, ucast (drop_bit 8 v)]
      in if host_le then bytes else rev bytes)"

text \<open>
  The second \<^verbatim>\<open>switch (format)\<close>: the bytes written at \<open>p\<close>, in address order; their number
  is \<open>sample_length\<close>. The \<open>default\<close> branch dies.
\<close>

fun pack_sample :: "bool \<Rightarrow> sps_format_t \<Rightarrow> 64 word \<Rightarrow> fatal + 8 word list" where
  "pack_sample host_le SPS_FORMAT_S32 hyper_sample =
     Inr (store_int32 host_le (ucast (signed_drop_bit (64 - 32) hyper_sample)))"
| "pack_sample host_le SPS_FORMAT_S32_LE hyper_sample =
     Inr [byte_at hyper_sample (64 - 32), byte_at hyper_sample (64 - 32 + 8),
          byte_at hyper_sample (64 - 32 + 16), byte_at hyper_sample (64 - 32 + 24)]"
| "pack_sample host_le SPS_FORMAT_S32_BE hyper_sample =
     Inr [byte_at hyper_sample (64 - 32 + 24), byte_at hyper_sample (64 - 32 + 16),
          byte_at hyper_sample (64 - 32 + 8), byte_at hyper_sample (64 - 32)]"
| "pack_sample host_le SPS_FORMAT_S24_3LE hyper_sample =
     Inr [byte_at hyper_sample (64 - 24), byte_at hyper_sample (64 - 24 + 8),
          byte_at hyper_sample (64 - 24 + 16)]"
| "pack_sample host_le SPS_FORMAT_S24_3BE hyper_sample =
     Inr [byte_at hyper_sample (64 - 24 + 16), byte_at hyper_sample (64 - 24 + 8),
          byte_at hyper_sample (64 - 24)]"
| "pack_sample host_le SPS_FORMAT_S24 hyper_sample =
     Inr (store_int32 host_le (ucast (signed_drop_bit (64 - 24) hyper_sample)))"
| "pack_sample host_le SPS_FORMAT_S24_LE hyper_sample =
     Inr [byte_at hyper_sample (64 - 24), byte_at hyper_sample (64 - 24 + 8),
          byte_at hyper_sample (64 - 24 + 16), 0]"
| "pack_sample host_le SPS_FORMAT_S24_BE hyper_sample =
     Inr [0, byte_at hyper_sample (64 - 24 + 16), byte_at hyper_sample (64 - 24 + 8),
          byte_at hyper_sample (64 - 24)]"
| "pack_sample host_le SPS_FORMAT_S16_LE hyper_sample =
     Inr [byte_at hyper_sample (64 - 16), byte_at hyper_sample (64 - 16 + 8)]"
| "pack_sample host_le SPS_FORMAT_S16_BE hyper_sample =
     Inr [byte_at hyper_sample (64 - 16 + 8), byte_at hyper_sample (64 - 16)]"
| "pack_sample host_le SPS_FORMAT_S16 hyper_sample =
     Inr (store_int16 host_le (ucast (signed_drop_bit (64 - 16) hyper_sample)))"
| "pack_sample host_le SPS_FORMAT_S8 hyper_sample =
     Inr [byte_at hyper_sample (64 - 8)]"
| "pack_sample host_le SPS_FORMAT_U8 hyper_sample =
     Inr [128 + byte_at hyper_sample (64 - 8)]"
| "pack_sample host_le _ hyper_sample = Inl Die"

text \<open>
  The body of the loop, in three parts.
  \<^verbatim>\<open>int64_t tpdf = (r & dither_mask) - (previous_random_number & dither_mask);\<close>
  \<^verbatim>\<open>int64_t hyper_sample = 0; ... if (with_dither != 0) hyper_sample += tpdf;\<close>
\<close>

definition tpdf_of :: "64 word \<Rightarrow> 64 word \<Rightarrow> 64 word \<Rightarrow> 64 word" where
  "tpdf_of r previous_random_number dither_mask =
     (r AND dither_mask) - (previous_random_number AND dither_mask)"

definition hyper_sample_of :: "int \<Rightarrow> 64 word \<Rightarrow> 64 word" where
  "hyper_sample_of with_dither tpdf = (if with_dither \<noteq> 0 then 0 + tpdf else 0)"

text \<open>
  One pass through the body: draw \<open>r\<close> with \<open>r64i\<close>, form \<open>tpdf\<close> and \<open>hyper_sample\<close>, pack.
  The result is the bytes written, the new \<open>previous_random_number\<close> (which is \<open>r\<close>) and the
  generator after the draw.
\<close>

definition zero_frame_sample ::
  "bool \<Rightarrow> sps_format_t \<Rightarrow> int \<Rightarrow> 64 word \<Rightarrow> ranctx \<Rightarrow> 64 word
     \<Rightarrow> fatal + (8 word list \<times> 64 word \<times> ranctx)" where
  "zero_frame_sample host_le format with_dither dither_mask rx previous_random_number =
     (let r = fst (r64i rx);
          rx' = snd (r64i rx);
          tpdf = tpdf_of r previous_random_number dither_mask;
          hyper_sample = hyper_sample_of with_dither tpdf
      in case pack_sample host_le format hyper_sample of
           Inl e \<Rightarrow> Inl e
         | Inr bytes \<Rightarrow> Inr (bytes, r, rx'))"

text \<open>
  \<^verbatim>\<open>for (sample_number = 0; sample_number < number_of_frames * 2; sample_number++)\<close>, with
  \<open>limit\<close> the value of \<open>number_of_frames * 2\<close>. \<open>outp\<close> is what has been written so far.
\<close>

function generate_zero_frames_loop ::
  "bool \<Rightarrow> sps_format_t \<Rightarrow> int \<Rightarrow> 64 word \<Rightarrow> nat \<Rightarrow> nat \<Rightarrow> ranctx \<Rightarrow> 64 word \<Rightarrow> 8 word list
     \<Rightarrow> fatal + (8 word list \<times> 64 word \<times> ranctx)" where
  "generate_zero_frames_loop host_le format with_dither dither_mask limit sample_number rx
       previous_random_number outp =
     (if sample_number < limit then
        (case zero_frame_sample host_le format with_dither dither_mask rx previous_random_number of
           Inl e \<Rightarrow> Inl e
         | Inr (bytes, r, rx') \<Rightarrow>
             generate_zero_frames_loop host_le format with_dither dither_mask limit
               (sample_number + 1) rx' r (outp @ bytes))
      else Inr (outp, previous_random_number, rx))"
  by pat_completeness auto
termination
  by (relation "measure (\<lambda>(h, f, w, m, limit, sample_number, rest). limit - sample_number)") auto

text \<open>
  \<open>number_of_frames\<close> is a \<open>size_t\<close>, taken as 64 bits wide, so \<open>number_of_frames * 2\<close> wraps
  modulo \<open>2 ^ 64\<close>. The result is the bytes written from \<open>outp\<close> on, the returned last random
  number and the generator \<open>rx\<close> afterwards. The mutex \<open>r64_mutex\<close> is not modelled.
\<close>

definition generate_zero_frames ::
  "bool \<Rightarrow> 64 word \<Rightarrow> sps_format_t \<Rightarrow> int \<Rightarrow> 64 word \<Rightarrow> ranctx
     \<Rightarrow> fatal + (8 word list \<times> 64 word \<times> ranctx)" where
  "generate_zero_frames host_le number_of_frames format with_dither random_number_in rx =
     (case dither_mask_of format of
        Inl e \<Rightarrow> Inl e
      | Inr dither_mask \<Rightarrow>
          generate_zero_frames_loop host_le format with_dither dither_mask
            (unat (number_of_frames * 2)) 0 rx random_number_in [])"

text \<open>The formats that are not sentinels, and the width the specification gives each.\<close>

definition supported :: "sps_format_t \<Rightarrow> bool" where
  "supported format =
     (format \<noteq> SPS_FORMAT_UNKNOWN \<and> format \<noteq> SPS_FORMAT_AUTO \<and> format \<noteq> SPS_FORMAT_INVALID)"

fun spec_bit_width :: "sps_format_t \<Rightarrow> nat" where
  "spec_bit_width SPS_FORMAT_S8 = 8"
| "spec_bit_width SPS_FORMAT_U8 = 8"
| "spec_bit_width SPS_FORMAT_S16 = 16"
| "spec_bit_width SPS_FORMAT_S16_LE = 16"
| "spec_bit_width SPS_FORMAT_S16_BE = 16"
| "spec_bit_width SPS_FORMAT_S24 = 24"
| "spec_bit_width SPS_FORMAT_S24_LE = 24"
| "spec_bit_width SPS_FORMAT_S24_BE = 24"
| "spec_bit_width SPS_FORMAT_S24_3LE = 24"
| "spec_bit_width SPS_FORMAT_S24_3BE = 24"
| "spec_bit_width SPS_FORMAT_S32 = 32"
| "spec_bit_width SPS_FORMAT_S32_LE = 32"
| "spec_bit_width SPS_FORMAT_S32_BE = 32"
| "spec_bit_width _ = 0"

text \<open>\<open>sample_length\<close>, as the second switch sets it.\<close>

fun sample_length :: "sps_format_t \<Rightarrow> nat" where
  "sample_length SPS_FORMAT_S32 = 4"
| "sample_length SPS_FORMAT_S32_LE = 4"
| "sample_length SPS_FORMAT_S32_BE = 4"
| "sample_length SPS_FORMAT_S24_3LE = 3"
| "sample_length SPS_FORMAT_S24_3BE = 3"
| "sample_length SPS_FORMAT_S24 = 4"
| "sample_length SPS_FORMAT_S24_LE = 4"
| "sample_length SPS_FORMAT_S24_BE = 4"
| "sample_length SPS_FORMAT_S16_LE = 2"
| "sample_length SPS_FORMAT_S16_BE = 2"
| "sample_length SPS_FORMAT_S16 = 2"
| "sample_length SPS_FORMAT_S8 = 1"
| "sample_length SPS_FORMAT_U8 = 1"
| "sample_length _ = 0"

text \<open>Exchanging the two bytes of every 16-bit sample of a buffer.\<close>

fun swap16 :: "8 word list \<Rightarrow> 8 word list" where
  "swap16 (lo # hi # rest) = hi # lo # swap16 rest"
| "swap16 rest = rest"

text \<open>
  The bytes of one packed sample as a total function, and the whole run of the generator
  written out from the sequence of draws: with \<open>rs\<close> the values drawn, sample \<open>i\<close> is packed
  from \<open>tpdf_of (rs ! i) ((prev # rs) ! i)\<close>.
\<close>

definition sample_bytes :: "bool \<Rightarrow> sps_format_t \<Rightarrow> 64 word \<Rightarrow> 8 word list" where
  "sample_bytes host_le format hyper_sample =
     (case pack_sample host_le format hyper_sample of Inl e \<Rightarrow> [] | Inr bytes \<Rightarrow> bytes)"

fun packed_run ::
  "bool \<Rightarrow> sps_format_t \<Rightarrow> int \<Rightarrow> 64 word \<Rightarrow> 64 word \<Rightarrow> 64 word list \<Rightarrow> 8 word list" where
  "packed_run host_le format with_dither dither_mask prev [] = []"
| "packed_run host_le format with_dither dither_mask prev (r # rs) =
     sample_bytes host_le format (hyper_sample_of with_dither (tpdf_of r prev dither_mask))
       @ packed_run host_le format with_dither dither_mask r rs"

text \<open>The generator \<open>rx\<close> as it is after process start (a zeroed static) and \<open>r64init 0\<close>.\<close>

definition rx_seeded_0 :: ranctx where
  "rx_seeded_0 = r64init 0 \<lparr>ctx_a = 0, ctx_b = 0, ctx_c = 0, ctx_d = 0\<rparr>"

section \<open>The volume curves (\<open>flat_vol2attn\<close>, \<open>dasl_tapered_vol2attn\<close>, \<open>vol2attn\<close>)\<close>

text \<open>
  The curves compute in \<open>double\<close>. They are modelled twice. In the definitions of this
  section every operation is exact (\<open>real\<close>), so rounding, infinities and NaN are outside
  them; they carry the shape of the curves, the branches and the calls to the log. The
  section after it models \<open>flat_vol2attn\<close> and \<open>dasl_tapered_vol2attn\<close> again with the
  rounding of binary64 after every operation, for the comparison of the two, which
  rounding decides. \<open>long\<close> is \<open>int\<close> (a signed overflow of \<open>max_db - min_db\<close> is undefined
  in C and not modelled).

  A call \<^verbatim>\<open>debug(level, format, ...)\<close> hands a message to the logging sink. The model
  records each call, with its level and its format string, in the order of the calls; the
  sink itself (which prints a message when \<open>level\<close> is at most \<open>debuglev\<close>) is not part of it.
\<close>

datatype log_call = Debug nat string

definition flat_out_of_range :: log_call where
  "flat_out_of_range = Debug 1
     ''flat_vol2attn volume request value %f is out of range: should be from 0.0 to -30.0 or -144.0.''"

definition dasl_out_of_range :: log_call where
  "dasl_out_of_range = Debug 1
     ''dasl_tapered volume request value %f is out of range: should be from 0.0 to -30.0 or -144.0.''"

definition dasl_flat_used :: log_call where
  "dasl_flat_used = Debug 3
     ''dasl_tapered_vol2attn returning a flat setting of %f for AirPlay volume %f instead of a tapered setting of %f in a range from %f to %f.''"

definition vol2attn_out_of_range :: log_call where
  "vol2attn_out_of_range = Debug 1
     ''vol2attn request value %f is out of range: should be from 0.0 to -30.0 or -144.0.''"

definition flat_vol2attn :: "real \<Rightarrow> int \<Rightarrow> int \<Rightarrow> real \<times> log_call list" where
  "flat_vol2attn vol max_db min_db =
     (let vol_setting = real_of_int min_db
      in if vol \<le> 0 \<and> vol \<ge> - 30 then
           (real_of_int (max_db - min_db) * (30 + vol) / 30 + real_of_int min_db, [])
         else if vol \<noteq> - 144 then (vol_setting, [flat_out_of_range])
         else (vol_setting, []))"

definition dasl_tapered_vol2attn :: "real \<Rightarrow> int \<Rightarrow> int \<Rightarrow> real \<times> log_call list" where
  "dasl_tapered_vol2attn vol max_db min_db =
     (let vol_setting = real_of_int min_db
      in if vol \<le> 0 \<and> vol \<ge> - 30 then
           (let vol_pct = 1 - vol / (- 30)
            in if vol_pct \<le> 0 then (real_of_int min_db, [])
               else
                 (let flat_setting = real_of_int min_db + real_of_int (max_db - min_db) * vol_pct;
                      vol_setting = real_of_int max_db + 1000 * log 10 vol_pct / log 10 2
                  in if vol_setting < flat_setting then (flat_setting, [dasl_flat_used])
                     else if vol_setting > real_of_int max_db then (real_of_int max_db, [])
                     else (vol_setting, [])))
         else if vol \<noteq> - 144 then (vol_setting, [dasl_out_of_range])
         else (vol_setting, []))"

text \<open>\<^verbatim>\<open>#define order 3\<close>\<close>

definition order :: nat where
  "order = 3"

text \<open>
  The loop \<^verbatim>\<open>for (i = 0; i < order; i++)\<close> of \<open>vol2attn\<close> over the array \<open>lines\<close>, each line
  a pair \<open>(lines[i][0], lines[i][1])\<close>; it dies when \<open>-30 - lines[i][0]\<close> is zero.
\<close>

function vol2attn_loop :: "nat \<Rightarrow> (real \<times> real) list \<Rightarrow> real \<Rightarrow> real \<Rightarrow> fatal + real" where
  "vol2attn_loop i lines vol vol_setting =
     (if i < order then
        (if vol \<le> fst (lines ! i) then
           (if - 30 - fst (lines ! i) = 0 then Inl Die
            else
              (let tvol = snd (lines ! i) * (vol - fst (lines ! i)) / (- 30 - fst (lines ! i))
               in vol2attn_loop (i + 1) lines vol (if tvol < vol_setting then tvol else vol_setting)))
         else vol2attn_loop (i + 1) lines vol vol_setting)
      else Inr vol_setting)"
  by pat_completeness auto
termination
  by (relation "measure (\<lambda>(i, lines, vol, vol_setting). order - i)") auto

text \<open>
  \<open>-range_db / 2\<close> is a division of \<open>long\<close>s, which truncates towards zero (\<open>sdiv\<close>), taken
  before the conversion to \<open>double\<close>; the division in \<open>lines[1][1]\<close> is one of \<open>double\<close>s.
\<close>

definition vol2attn :: "real \<Rightarrow> int \<Rightarrow> int \<Rightarrow> fatal + (real \<times> log_call list)" where
  "vol2attn vol max_db min_db =
     (if vol \<le> 0 \<and> vol \<ge> - 30 then
        (let range_db = max_db - min_db;
             first_slope0 = real_of_int ((- range_db) sdiv 2);
             first_slope = (if real_of_int (- range_db) > first_slope0 then real_of_int range_db
                            else first_slope0);
             lines = [(0, first_slope),
                      (- 5, first_slope - (real_of_int range_db + first_slope) / 2),
                      (- 17, real_of_int (- range_db))]
         in case vol2attn_loop 0 lines vol 0 of
              Inl e \<Rightarrow> Inl e
            | Inr vol_setting \<Rightarrow> Inr (vol_setting + real_of_int max_db, []))
      else if vol \<noteq> - 144 then Inr (real_of_int min_db, [vol2attn_out_of_range])
      else Inr (real_of_int min_db, []))"

text \<open>
  What one pass of that loop does to \<open>vol_setting\<close> for a line \<open>(x, y)\<close> whose \<open>x\<close> is not
  \<open>-30\<close>; the lemmas below write the three passes with it.
\<close>

definition line_pass :: "real \<Rightarrow> real \<Rightarrow> real \<Rightarrow> real \<Rightarrow> real" where
  "line_pass x y vol vol_setting =
     (if vol \<le> x then
        (let tvol = y * (vol - x) / (- 30 - x)
         in if tvol < vol_setting then tvol else vol_setting)
      else vol_setting)"

section \<open>The flat and the tapered curve in binary64\<close>

text \<open>
  A \<open>double\<close> is the real number it stands for. \<open>b64\<close> rounds a real to the nearest
  binary64 number, ties to the even significand: with \<open>e\<close> the binary exponent of \<open>x\<close> the
  spacing of the doubles around \<open>x\<close> is \<open>2 ^ (e - 52)\<close>, and \<open>x\<close> is rounded to a multiple of
  it. This is the rounding of the normal range; overflow to infinity, subnormal numbers
  and NaN are not modelled (the values of the curves are far from both ends of the
  range). Every arithmetic operation of the source on doubles is its exact result
  rounded once, and a conversion of a \<open>long\<close> is the rounded integer. On a given number
  \<open>b64\<close> is evaluated with \<open>b64_scaled\<close> and \<open>b64_scaled_up\<close>.
\<close>

definition round_even :: "real \<Rightarrow> int" where
  "round_even y =
     (let f = \<lfloor>y\<rfloor>; r = y - of_int f
      in if r < 1 / 2 then f else if 1 / 2 < r then f + 1 else if even f then f else f + 1)"

definition b64 :: "real \<Rightarrow> real" where
  "b64 x =
     (if x = 0 then 0
      else (let u = 2 powr (of_int \<lfloor>log 2 \<bar>x\<bar>\<rfloor> - 52)
            in u * of_int (round_even (x / u))))"

text \<open>
  \<^verbatim>\<open>vol_setting = ((max_db - min_db) * (30.0 + vol) / 30) + min_db;\<close> of \<open>flat_vol2attn\<close>,
  operation by operation, and the branches around it.
\<close>

definition flat_vol2attn_b64 :: "real \<Rightarrow> int \<Rightarrow> int \<Rightarrow> real \<times> log_call list" where
  "flat_vol2attn_b64 vol max_db min_db =
     (let vol_setting = b64 (real_of_int min_db)
      in if vol \<le> 0 \<and> vol \<ge> - 30 then
           (b64 (b64 (b64 (b64 (real_of_int (max_db - min_db)) * b64 (30 + vol)) / 30)
                 + b64 (real_of_int min_db)), [])
         else if vol \<noteq> - 144 then (vol_setting, [flat_out_of_range])
         else (vol_setting, []))"

text \<open>
  \<open>dasl_tapered_vol2attn\<close> operation by operation:
  \<^verbatim>\<open>vol_pct = 1 - (vol / -30.0)\<close>,
  \<^verbatim>\<open>flat_setting = min_db + (max_db - min_db) * vol_pct\<close>,
  \<^verbatim>\<open>vol_setting = max_db + 1000 * log10(vol_pct) / log10(2)\<close>.
  \<open>log10\<close> belongs to the C library, not to this repository, and is a parameter.
\<close>

definition dasl_tapered_vol2attn_b64 ::
  "(real \<Rightarrow> real) \<Rightarrow> real \<Rightarrow> int \<Rightarrow> int \<Rightarrow> real \<times> log_call list" where
  "dasl_tapered_vol2attn_b64 log10 vol max_db min_db =
     (let vol_setting = b64 (real_of_int min_db)
      in if vol \<le> 0 \<and> vol \<ge> - 30 then
           (let vol_pct = b64 (1 - b64 (vol / (- 30)))
            in if vol_pct \<le> 0 then (b64 (real_of_int min_db), [])
               else
                 (let flat_setting =
                        b64 (b64 (real_of_int min_db)
                             + b64 (b64 (real_of_int (max_db - min_db)) * vol_pct));
                      vol_setting =
                        b64 (b64 (real_of_int max_db)
                             + b64 (b64 (1000 * log10 vol_pct) / log10 2))
                  in if vol_setting < flat_setting then (flat_setting, [dasl_flat_used])
                     else if vol_setting > b64 (real_of_int max_db)
                       then (b64 (real_of_int max_db), [])
                     else (vol_setting, [])))
         else if vol \<noteq> - 144 then (vol_setting, [dasl_out_of_range])
         else (vol_setting, []))"

text \<open>The value of \<open>flat_setting\<close> in \<open>dasl_tapered_vol2attn\<close>, on its own.\<close>

definition dasl_flat_setting_b64 :: "real \<Rightarrow> int \<Rightarrow> int \<Rightarrow> real" where
  "dasl_flat_setting_b64 vol max_db min_db =
     b64 (b64 (real_of_int min_db)
          + b64 (b64 (real_of_int (max_db - min_db)) * b64 (1 - b64 (vol / (- 30)))))"

text \<open>
  Where a concrete \<open>log10\<close> is needed it is the correctly rounded one. The comparison at
  volume -26 below holds for every \<open>log10\<close> within the bounds of \<open>log10_rounded_bounds\<close>
  (\<open>dasl_b64_minus_26\<close>).
\<close>

definition log10_rounded :: "real \<Rightarrow> real" where
  "log10_rounded x = b64 (log 10 x)"

section \<open>Lemmas on the dither source\<close>

lemma rot_eq_word_rotl:
  assumes "0 < k" and "k < 64"
  shows "rot x k = word_rotl k x"
proof (rule bit_word_eqI)
  fix n :: nat
  assume n: "n < LENGTH(64)"
  show "bit (rot x k) n = bit (word_rotl k x) n"
  proof (cases "k \<le> n")
    case True
    with assms n have "(n + (64 - k mod 64)) mod 64 = n - k"
      by (simp add: mod_if)
    with True assms n show ?thesis
      by (auto simp add: rot_def bit_or_iff bit_push_bit_iff bit_drop_bit_eq bit_word_rotl_iff
          dest: bit_imp_le_length)
  next
    case False
    with assms n have "(n + (64 - k mod 64)) mod 64 = 64 - k + n"
      by (simp add: add.commute)
    with False assms n show ?thesis
      by (simp add: rot_def bit_or_iff bit_push_bit_iff bit_drop_bit_eq bit_word_rotl_iff)
  qed
qed

lemma ranval_eq_spec_draw: "ranval x = spec_draw x"
  by (cases x) (simp add: ranval_def spec_draw_def Let_def rot_eq_word_rotl)

lemma raninit_loop_funpow:
  "i \<le> 20 \<Longrightarrow> raninit_loop i x = ((\<lambda>y. snd (ranval y)) ^^ (20 - i)) x"
proof (induction i x rule: raninit_loop.induct)
  case (1 i x)
  show ?case
  proof (cases "i < 20")
    case True
    then have "20 - i = Suc (20 - (i + 1))" by simp
    with True "1.IH" show ?thesis
      by (simp add: funpow_swap1 [of "\<lambda>y. snd (ranval y)"])
  next
    case False
    with "1.prems" show ?thesis by simp
  qed
qed

section \<open>Lemmas on machine words\<close>

lemma sint_eq_uint_small:
  fixes w :: "64 word"
  assumes "uint w < 2 ^ 63"
  shows "sint w = uint w"
proof -
  have "sint w = signed_take_bit 63 (uint w)"
    by (simp add: sint_uint)
  also have "\<dots> = uint w"
  proof (rule signed_take_bit_int_eq_self)
    have "0 \<le> uint w" and "(0::int) < 2 ^ 63" by simp_all
    then show "- (2 ^ 63) \<le> uint w" by linarith
    show "uint w < 2 ^ 63" by (rule assms)
  qed
  finally show ?thesis .
qed

lemma uint_drop_bit_1:
  fixes w :: "64 word"
  shows "uint (drop_bit 1 w) = uint w div 2"
  by (simp add: drop_bit_eq_div uint_div)

lemma uint_drop_bit_1_less:
  fixes w :: "64 word"
  shows "uint (drop_bit 1 w) < 2 ^ 63"
proof -
  have "uint w < 2 ^ 64" using uint_bounded [of w] by simp
  then have "uint w div 2 < 2 ^ 63" by simp
  then show ?thesis by (simp only: uint_drop_bit_1)
qed

lemma sint_drop_bit_1:
  fixes w :: "64 word"
  shows "sint (drop_bit 1 w) = uint w div 2"
  using sint_eq_uint_small [OF uint_drop_bit_1_less [of w]] by (simp only: uint_drop_bit_1)

lemma uint_and_mask_bounds:
  fixes w :: "64 word"
  assumes "n < 64"
  shows "0 \<le> uint (w AND mask n)" and "uint (w AND mask n) \<le> 2 ^ n - 1"
    and "sint (w AND mask n) = uint (w AND mask n)"
proof -
  show "0 \<le> uint (w AND mask n)" by simp
  have lt: "uint (w AND mask n) < 2 ^ n" by (rule and_mask_lt_2p)
  then show "uint (w AND mask n) \<le> 2 ^ n - 1" by simp
  have "(2::int) ^ n \<le> 2 ^ 63"
    using assms by (intro power_increasing) simp_all
  with lt have "uint (w AND mask n) < 2 ^ 63" by linarith
  then show "sint (w AND mask n) = uint (w AND mask n)" by (rule sint_eq_uint_small)
qed

lemma sint_mask:
  assumes "n < 64"
  shows "sint (mask n :: 64 word) = 2 ^ n - 1"
proof -
  have "uint (mask n :: 64 word) = (mask n :: int)"
    using assms by (simp add: uint_mask_eq min_def)
  also have "(mask n :: int) = 2 ^ n - 1"
    by (rule mask_eq_exp_minus_1)
  finally have u: "uint (mask n :: 64 word) = 2 ^ n - 1" .
  have "(2::int) ^ n \<le> 2 ^ 63"
    using assms by (intro power_increasing) simp_all
  with u have "uint (mask n :: 64 word) < 2 ^ 63" by linarith
  from sint_eq_uint_small [OF this] u show ?thesis by simp
qed

lemma sint_tpdf_of:
  assumes "n < 64"
  shows "sint (tpdf_of r prev (mask n)) = uint (r AND mask n) - uint (prev AND mask n)"
proof -
  let ?A = "uint (r AND mask n)" and ?B = "uint (prev AND mask n)"
  have p: "(2::int) ^ n \<le> 2 ^ 63"
    using assms by (intro power_increasing) simp_all
  have b: "0 \<le> ?A" "?A \<le> 2 ^ n - 1" "0 \<le> ?B" "?B \<le> 2 ^ n - 1"
    using uint_and_mask_bounds [OF assms] by blast+
  have "sint (tpdf_of r prev (mask n)) = signed_take_bit 63 (?A - ?B)"
    by (simp add: tpdf_of_def sint_word_diff uint_and_mask_bounds(3) [OF assms])
  also have "\<dots> = ?A - ?B"
    using b p by (intro signed_take_bit_int_eq_self) linarith+
  finally show ?thesis .
qed

lemma tpdf_of_bounds:
  assumes "n < 64"
  shows "- (2 ^ n - 1) \<le> sint (tpdf_of r prev (mask n))"
    and "sint (tpdf_of r prev (mask n)) \<le> 2 ^ n - 1"
  using uint_and_mask_bounds(1,2) [OF assms, of r] uint_and_mask_bounds(1,2) [OF assms, of prev]
  unfolding sint_tpdf_of [OF assms] by linarith+

section \<open>Lemmas on the zero-frame generator\<close>

lemma rx_seeded_0_value: "rx_seeded_0 = \<lparr>ctx_a = 14164389795737845300, ctx_b = 9554531267669312218,
    ctx_c = 18359684228256434393, ctx_d = 9115042587575273372\<rparr>"
  by (simp add: rx_seeded_0_def r64init_def raninit_def ranval_def rot_def Let_def)

lemma pack_sample_supported:
  "supported format \<Longrightarrow> pack_sample host_le format hs = Inr (sample_bytes host_le format hs)"
  by (cases format) (simp_all add: supported_def sample_bytes_def)

lemma length_draws: "length (draws n x) = n"
  by (induction n arbitrary: x) simp_all

lemma draws_nonempty: "0 < n \<Longrightarrow> draws n x \<noteq> []"
  by (cases n) simp_all

lemma dither_mask_of_supported:
  "supported format \<Longrightarrow> dither_mask_of format = Inr (mask (64 - spec_bit_width format))"
  by (cases format) (simp_all add: supported_def dither_mask_of_def mask_eq_exp_minus_1)

lemma spec_bit_width_supported:
  "supported format \<Longrightarrow> spec_bit_width format \<in> {8, 16, 24, 32}"
  by (cases format) (simp_all add: supported_def)


lemma zero_frame_sample_supported:
  assumes "supported format"
  shows "zero_frame_sample host_le format w m rx prev =
     Inr (sample_bytes host_le format (hyper_sample_of w (tpdf_of (drop_bit 1 (fst (ranval rx))) prev m)),
          drop_bit 1 (fst (ranval rx)), snd (ranval rx))"
  by (simp add: zero_frame_sample_def r64i_def Let_def pack_sample_supported [OF assms])

lemma loop_run:
  assumes "supported format"
  shows "generate_zero_frames_loop host_le format w m limit i rx prev outp =
     Inr (outp @ packed_run host_le format w m prev (map (drop_bit 1) (draws (limit - i) rx)),
          last (prev # map (drop_bit 1) (draws (limit - i) rx)),
          ((\<lambda>y. snd (ranval y)) ^^ (limit - i)) rx)"
  using assms
proof (induction host_le format w m limit i rx prev outp rule: generate_zero_frames_loop.induct)
  case (1 host_le format w m limit i rx prev outp)
  show ?case
  proof (cases "i < limit")
    case True
    then have k: "limit - i = Suc (limit - (i + 1))" by simp
    note step = zero_frame_sample_supported [OF "1.prems", of host_le w m rx prev]
    have ih: "generate_zero_frames_loop host_le format w m limit (i + 1) (snd (ranval rx))
        (drop_bit 1 (fst (ranval rx)))
        (outp @ sample_bytes host_le format (hyper_sample_of w (tpdf_of (drop_bit 1 (fst (ranval rx))) prev m))) =
      Inr ((outp @ sample_bytes host_le format (hyper_sample_of w (tpdf_of (drop_bit 1 (fst (ranval rx))) prev m)))
             @ packed_run host_le format w m (drop_bit 1 (fst (ranval rx)))
                 (map (drop_bit 1) (draws (limit - (i + 1)) (snd (ranval rx)))),
           last (drop_bit 1 (fst (ranval rx)) # map (drop_bit 1) (draws (limit - (i + 1)) (snd (ranval rx)))),
           ((\<lambda>y. snd (ranval y)) ^^ (limit - (i + 1))) (snd (ranval rx)))"
      by (rule "1.IH" [OF True step refl refl "1.prems"])
    have "generate_zero_frames_loop host_le format w m limit i rx prev outp =
       generate_zero_frames_loop host_le format w m limit (i + 1) (snd (ranval rx))
        (drop_bit 1 (fst (ranval rx)))
        (outp @ sample_bytes host_le format (hyper_sample_of w (tpdf_of (drop_bit 1 (fst (ranval rx))) prev m)))"
      using True by (subst generate_zero_frames_loop.simps) (simp add: step)
    also note ih
    finally show ?thesis
      by (simp only: k draws.simps list.map packed_run.simps last.simps funpow.simps
            funpow_swap1 [of "\<lambda>y. snd (ranval y)"] append_assoc o_apply) simp
  next
    case False
    then show ?thesis by (subst generate_zero_frames_loop.simps) simp
  qed
qed
lemma sample_bytes_silence:
  "supported format \<Longrightarrow>
   sample_bytes host_le format 0 =
     replicate (sample_length format) (if format = SPS_FORMAT_U8 then 128 else 0)"
  by (cases format)
    (simp_all add: supported_def sample_bytes_def byte_at_def store_int32_def store_int16_def
       Let_def numeral_eq_Suc)

lemma packed_run_silence:
  assumes "supported format"
  shows "packed_run host_le format 0 m prev rs =
     replicate (length rs * sample_length format) (if format = SPS_FORMAT_U8 then 128 else 0)"
proof (induction rs arbitrary: prev)
  case Nil
  show ?case by simp
next
  case (Cons r rs)
  show ?case
    by (simp add: Cons.IH hyper_sample_of_def sample_bytes_silence [OF assms]
        replicate_add [symmetric] del: replicate_add)
qed

lemma length_sample_bytes:
  "supported format \<Longrightarrow> length (sample_bytes host_le format hs) = sample_length format"
  by (cases format)
    (simp_all add: supported_def sample_bytes_def store_int32_def store_int16_def Let_def)

lemma packed_run_s16_swap:
  "packed_run host_le SPS_FORMAT_S16_BE w m prev rs =
     swap16 (packed_run host_le SPS_FORMAT_S16_LE w m prev rs)"
  by (induction rs arbitrary: prev) (simp_all add: sample_bytes_def)

lemma length_packed_run:
  assumes "supported format"
  shows "length (packed_run host_le format w m prev rs) = length rs * sample_length format"
  by (induction rs arbitrary: prev) (simp_all add: length_sample_bytes [OF assms])

lemma length_swap16: "length (swap16 xs) = length xs"
  by (induction xs rule: swap16.induct) simp_all

lemma swap16_nth:
  "2 * i + 1 < length xs \<Longrightarrow>
   swap16 xs ! (2 * i) = xs ! (2 * i + 1) \<and> swap16 xs ! (2 * i + 1) = xs ! (2 * i)"
proof (induction xs arbitrary: i rule: swap16.induct)
  case (1 lo hi rest)
  show ?case
  proof (cases i)
    case 0
    then show ?thesis by simp
  next
    case (Suc j)
    with "1.prems" have "2 * j + 1 < length rest" by simp
    from "1.IH" [OF this] Suc show ?thesis by simp
  qed
qed simp_all

section \<open>Lemmas on the runs of the generator\<close>

lemma generate_zero_frames_run:
  assumes "supported format"
  shows "generate_zero_frames host_le n format w prev rx =
     Inr (packed_run host_le format w (mask (64 - spec_bit_width format)) prev
            (map (drop_bit 1) (draws (unat (n * 2)) rx)),
          last (prev # map (drop_bit 1) (draws (unat (n * 2)) rx)),
          ((\<lambda>y. snd (ranval y)) ^^ unat (n * 2)) rx)"
  by (simp add: generate_zero_frames_def dither_mask_of_supported [OF assms] loop_run [OF assms]
      del: generate_zero_frames_loop.simps)

lemma seed_state_update:
  "rx\<lparr>ctx_a := 0xf1ea5eed, ctx_b := seed, ctx_c := seed, ctx_d := seed\<rparr> = spec_seed_state seed"
  by (cases rx) (simp add: spec_seed_state_def)

lemma raninit_eq: "raninit rx seed = ((\<lambda>y. snd (ranval y)) ^^ 20) (spec_seed_state seed)"
  using raninit_loop_funpow [of 0 "spec_seed_state seed"]
  by (simp add: raninit_def seed_state_update del: raninit_loop.simps)

lemma generate_zero_frames_wrap:
  assumes "supported format"
  shows "generate_zero_frames host_le (2 ^ 63) format w prev rx = Inr ([], prev, rx)"
  by (simp add: generate_zero_frames_run [OF assms])

lemma ucast_minus_1_byte: "(ucast (- 1 :: 64 word) :: 8 word) = 255"
  by (simp add: unsigned_minus_1_eq_mask mask_eq_exp_minus_1)

lemma draws_numeral:
  "draws (numeral k) x = fst (ranval x) # draws (pred_numeral k) (snd (ranval x))"
  by (simp add: numeral_eq_Suc)

lemma funpow_numeral_left:
  "(f ^^ numeral k) x = (f ^^ pred_numeral k) (f x)"
  by (simp add: numeral_eq_Suc funpow_swap1)

lemma r64i_draws_eq: "r64i_draws k rx = map (drop_bit 1) (draws k rx)"
  by (induction k arbitrary: rx) (simp_all add: r64i_def)

lemma length_r64i_draws: "length (r64i_draws k rx) = k"
  by (simp add: r64i_draws_eq length_draws)

lemma r64i_draws_range:
  assumes "r \<in> set (r64i_draws k rx)"
  shows "0 \<le> sint r \<and> uint r < 2 ^ 63"
proof -
  from assms obtain z where r: "r = drop_bit 1 z"
    by (auto simp add: r64i_draws_eq)
  have "uint (drop_bit 1 z) < 2 ^ 63" by (rule uint_drop_bit_1_less)
  moreover from sint_eq_uint_small [OF this] have "0 \<le> sint (drop_bit 1 z)" by simp
  ultimately show ?thesis unfolding r by blast
qed

lemma snd_r64i: "(\<lambda>y. snd (r64i y)) = (\<lambda>y. snd (ranval y))"
  by (simp add: r64i_def)

section \<open>Lemmas on the volume curves\<close>

lemma sdiv_half_nonpos:
  fixes r :: int
  assumes "0 \<le> r"
  shows "(- r) sdiv 2 = - (r div 2)"
  using assms by (simp add: signed_divide_int_def sgn_if)

lemma vol2attn_loop_lines:
  "vol2attn_loop 0 [(0, y0), (- 5, y1), (- 17, y2)] vol s =
     Inr (line_pass (- 17) y2 vol (line_pass (- 5) y1 vol (line_pass 0 y0 vol s)))"
  by (simp add: order_def line_pass_def Let_def)

lemma line_pass_mono:
  assumes "y \<le> 0" and "- 30 < x" and "v1 \<le> v2" and "s1 \<le> s2"
  shows "line_pass x y v1 s1 \<le> line_pass x y v2 s2"
proof -
  let ?t = "\<lambda>v. y * (v - x) / (- 30 - x)"
  have t_mono: "?t v1 \<le> ?t v2"
  proof -
    have "y * (v2 - x) \<le> y * (v1 - x)"
      using assms(1,3) by (intro mult_left_mono_neg) simp_all
    moreover have "- 30 - x \<le> 0" using assms(2) by simp
    ultimately show ?thesis by (rule divide_right_mono_neg)
  qed
  show ?thesis
    using t_mono assms(3,4) by (auto simp: line_pass_def Let_def)
qed

lemma vol2attn_in_range:
  assumes "min_db \<le> max_db" and "- 30 \<le> vol" and "vol \<le> 0"
  shows "vol2attn vol max_db min_db =
     Inr (line_pass (- 17) (- real_of_int (max_db - min_db)) vol
            (line_pass (- 5)
               ((- real_of_int ((max_db - min_db) div 2) - real_of_int (max_db - min_db)) / 2) vol
               (line_pass 0 (- real_of_int ((max_db - min_db) div 2)) vol 0))
          + real_of_int max_db, [])"
proof -
  let ?r = "max_db - min_db"
  have r: "0 \<le> ?r" using assms(1) by simp
  have fs: "real_of_int ((- ?r) sdiv 2) = - real_of_int (?r div 2)"
    by (simp only: sdiv_half_nonpos [OF r] of_int_minus)
  have "?r div 2 \<le> ?r" using r by simp
  then have keep: "\<not> real_of_int (- ?r) > - real_of_int (?r div 2)"
    by (simp add: not_less)
  have y1: "- real_of_int (?r div 2) - (real_of_int ?r + - real_of_int (?r div 2)) / 2
      = (- real_of_int (?r div 2) - real_of_int ?r) / 2"
    by (simp add: field_simps)
  show ?thesis
    using assms(2,3) keep
    by (simp only: vol2attn_def Let_def fs y1 vol2attn_loop_lines if_True if_False simp_thms
        sum.case of_int_minus)
qed

lemma dasl_tapered_in_range:
  assumes "- 30 \<le> vol" and "vol \<le> 0"
  shows "dasl_tapered_vol2attn vol max_db min_db =
     (if 1 - vol / (- 30) \<le> 0 then (real_of_int min_db, [])
      else if real_of_int max_db + 1000 * log 10 (1 - vol / (- 30)) / log 10 2
              < real_of_int min_db + real_of_int (max_db - min_db) * (1 - vol / (- 30))
           then (real_of_int min_db + real_of_int (max_db - min_db) * (1 - vol / (- 30)),
                 [dasl_flat_used])
      else if real_of_int max_db + 1000 * log 10 (1 - vol / (- 30)) / log 10 2 > real_of_int max_db
           then (real_of_int max_db, [])
      else (real_of_int max_db + 1000 * log 10 (1 - vol / (- 30)) / log 10 2, []))"
  using assms by (simp add: dasl_tapered_vol2attn_def Let_def)

lemma flat_in_range:
  assumes "- 30 \<le> vol" and "vol \<le> 0"
  shows "flat_vol2attn vol max_db min_db =
     (real_of_int min_db + real_of_int (max_db - min_db) * (1 - vol / (- 30)), [])"
  using assms by (simp add: flat_vol2attn_def field_simps)

lemma tapered_term_nonpos:
  assumes "0 < p" and "p \<le> 1"
  shows "1000 * log 10 p / log 10 2 \<le> 0"
proof -
  have "log 10 p \<le> 0" using assms by simp
  moreover have "0 < log 10 (2 :: real)" by simp
  ultimately show ?thesis
    by (simp add: divide_nonpos_pos mult_nonneg_nonpos)
qed

lemma dasl_half_volume:
  "dasl_tapered_vol2attn (- 15) 0 (- 6000) = (- 1000, [])"
proof -
  have "0 < log 10 (2 :: real)" by simp
  then have "log 10 (2 :: real) \<noteq> 0" by (metis less_irrefl)
  then have "log 10 (1 / 2) / log 10 2 = (- 1 :: real)"
    by (simp add: log_divide)
  then show ?thesis
    by (simp add: dasl_tapered_vol2attn_def Let_def)
qed

text \<open>In exact arithmetic the tapered curve lies on or above the flat one.\<close>

lemma dasl_tapered_exact:
  assumes "min_db \<le> max_db" and "(- 30 \<le> vol \<and> vol \<le> 0) \<or> vol = - 144"
  shows "real_of_int min_db \<le> fst (dasl_tapered_vol2attn vol max_db min_db)
   \<and> fst (dasl_tapered_vol2attn vol max_db min_db) \<le> real_of_int max_db
   \<and> fst (flat_vol2attn vol max_db min_db) \<le> fst (dasl_tapered_vol2attn vol max_db min_db)"
proof (cases "vol = - 144")
  case True
  with assms(1) show ?thesis
    by (simp add: dasl_tapered_vol2attn_def flat_vol2attn_def)
next
  case False
  with assms(2) have lo: "- 30 \<le> vol" and hi: "vol \<le> 0" by simp_all
  let ?p = "1 - vol / (- 30)"
  let ?F = "real_of_int min_db + real_of_int (max_db - min_db) * ?p"
  let ?T = "real_of_int max_db + 1000 * log 10 ?p / log 10 2"
  have p0: "0 \<le> ?p" and p1: "?p \<le> 1" using lo hi by simp_all
  have r: "0 \<le> real_of_int (max_db - min_db)" using assms(1) by simp
  have Fmin: "real_of_int min_db \<le> ?F"
    using r p0 by simp
  have "real_of_int (max_db - min_db) * ?p \<le> real_of_int (max_db - min_db) * 1"
    using r p1 by (rule mult_left_mono [rotated])
  then have Fmax: "?F \<le> real_of_int max_db" by simp
  note d = dasl_tapered_in_range [OF lo hi, of max_db min_db]
  note f = flat_in_range [OF lo hi, of max_db min_db]
  show ?thesis
  proof (cases "?p \<le> 0")
    case True
    with p0 have "?p = 0" by linarith
    with True assms(1) show ?thesis
      unfolding d f by simp
  next
    case False
    then have "0 < ?p" by simp
    from tapered_term_nonpos [OF this p1] have Tmax: "?T \<le> real_of_int max_db" by linarith
    from False Fmin Fmax Tmax show ?thesis
      unfolding d f by (simp del: of_int_diff)
  qed
qed

section \<open>Lemmas on binary64 rounding\<close>

lemma round_even_bounds: "\<lfloor>y\<rfloor> \<le> round_even y \<and> round_even y \<le> \<lfloor>y\<rfloor> + 1"
  by (simp add: round_even_def Let_def)

lemma round_even_of_int [simp]: "round_even (of_int k) = k"
  by (simp add: round_even_def Let_def)

lemma round_even_mono:
  assumes "a \<le> b"
  shows "round_even a \<le> round_even b"
proof (cases "\<lfloor>a\<rfloor> < \<lfloor>b\<rfloor>")
  case True
  have "round_even a \<le> \<lfloor>a\<rfloor> + 1" using round_even_bounds [of a] by simp
  also have "\<dots> \<le> \<lfloor>b\<rfloor>" using True by simp
  also have "\<dots> \<le> round_even b" using round_even_bounds [of b] by simp
  finally show ?thesis .
next
  case False
  moreover have "\<lfloor>a\<rfloor> \<le> \<lfloor>b\<rfloor>" using assms by (rule floor_mono)
  ultimately have eq: "\<lfloor>a\<rfloor> = \<lfloor>b\<rfloor>" by simp
  with assms show ?thesis
    by (auto simp add: round_even_def Let_def)
qed

lemma round_even_minus: "round_even (- y) = - round_even y"
proof (cases "y = of_int \<lfloor>y\<rfloor>")
  case True
  then obtain k where "y = of_int k" ..
  then have "- y = of_int (- k)" by simp
  with \<open>y = of_int k\<close> show ?thesis by (simp only: round_even_of_int)
next
  case False
  then have fl: "\<lfloor>- y\<rfloor> = - \<lfloor>y\<rfloor> - 1"
    by (simp add: floor_minus ceiling_altdef)
  have "of_int \<lfloor>y\<rfloor> \<le> y" by simp
  moreover from False have "of_int \<lfloor>y\<rfloor> \<noteq> y" by metis
  ultimately have lt: "of_int \<lfloor>y\<rfloor> < y" by (simp add: less_le)
  show ?thesis
    using lt by (auto simp add: round_even_def Let_def fl)
qed

lemma b64_zero [simp]: "b64 0 = 0"
  by (simp add: b64_def)

lemma b64_minus: "b64 (- x) = - b64 x"
  by (simp add: b64_def Let_def round_even_minus)

lemma exponent_bounds:
  assumes "0 < x"
  shows "2 powr of_int \<lfloor>log 2 x\<rfloor> \<le> x" and "x < 2 powr (of_int \<lfloor>log 2 x\<rfloor> + 1)"
proof -
  have "of_int \<lfloor>log 2 x\<rfloor> \<le> log 2 x" by simp
  with assms show "2 powr of_int \<lfloor>log 2 x\<rfloor> \<le> x"
    by (simp add: powr_le_iff)
  have "log 2 x < of_int \<lfloor>log 2 x\<rfloor> + 1" by linarith
  with assms show "x < 2 powr (of_int \<lfloor>log 2 x\<rfloor> + 1)"
    by (simp add: less_powr_iff)
qed

lemma b64_pos_bounds:
  assumes "0 < x"
  shows "2 powr of_int \<lfloor>log 2 x\<rfloor> \<le> b64 x" and "b64 x \<le> 2 powr (of_int \<lfloor>log 2 x\<rfloor> + 1)"
proof -
  let ?e = "of_int \<lfloor>log 2 x\<rfloor> :: real"
  let ?u = "2 powr (?e - 52) :: real"
  have u: "0 < ?u" by simp
  have b: "b64 x = ?u * of_int (round_even (x / ?u))"
    using assms by (simp add: b64_def Let_def)
  have lo: "?u * 2 ^ 52 = 2 powr ?e"
  proof -
    have "(2::real) powr 52 = 2 ^ 52"
      using powr_realpow [of "2::real" 52] by simp
    then have "?u * 2 ^ 52 = 2 powr (?e - 52) * 2 powr 52" by (simp only:)
    also have "\<dots> = 2 powr ?e" by (simp only: powr_add [symmetric]) simp
    finally show ?thesis .
  qed
  have hi: "?u * 2 ^ 53 = 2 powr (?e + 1)"
  proof -
    have "(2::real) powr 53 = 2 ^ 53"
      using powr_realpow [of "2::real" 53] by simp
    then have "?u * 2 ^ 53 = 2 powr (?e - 52) * 2 powr 53" by (simp only:)
    also have "\<dots> = 2 powr (?e + 1)" by (simp only: powr_add [symmetric]) (simp add: add.commute)
    finally show ?thesis .
  qed
  have "2 ^ 52 \<le> x / ?u"
    using exponent_bounds(1) [OF assms] u lo by (simp add: pos_le_divide_eq mult.commute)
  then have "round_even (of_int (2 ^ 52)) \<le> round_even (x / ?u)"
    by (intro round_even_mono) simp
  then have "(2::int) ^ 52 \<le> round_even (x / ?u)" by (simp only: round_even_of_int)
  then have "(2::real) ^ 52 \<le> of_int (round_even (x / ?u))"
    by (metis of_int_le_iff of_int_numeral of_int_power)
  then have "?u * 2 ^ 52 \<le> ?u * of_int (round_even (x / ?u))"
    using u by (simp only: mult_le_cancel_left_pos)
  then show "2 powr ?e \<le> b64 x" by (simp only: lo b)
  have "x / ?u \<le> 2 ^ 53"
    using exponent_bounds(2) [OF assms] u hi by (simp add: pos_divide_le_eq mult.commute)
  then have "round_even (x / ?u) \<le> round_even (of_int (2 ^ 53))"
    by (intro round_even_mono) simp
  then have "round_even (x / ?u) \<le> (2::int) ^ 53" by (simp only: round_even_of_int)
  then have "of_int (round_even (x / ?u)) \<le> (2::real) ^ 53"
    by (metis of_int_le_iff of_int_numeral of_int_power)
  then have "?u * of_int (round_even (x / ?u)) \<le> ?u * 2 ^ 53"
    using u by (simp only: mult_le_cancel_left_pos)
  then show "b64 x \<le> 2 powr (?e + 1)" by (simp only: hi b)
qed

lemma b64_mono_pos:
  assumes "0 < x" and "x \<le> y"
  shows "b64 x \<le> b64 y"
proof -
  have y: "0 < y" using assms by linarith
  have le: "\<lfloor>log 2 x\<rfloor> \<le> \<lfloor>log 2 y\<rfloor>"
    using assms by (intro floor_mono) simp
  show ?thesis
  proof (cases "\<lfloor>log 2 x\<rfloor> = \<lfloor>log 2 y\<rfloor>")
    case True
    let ?u = "2 powr (of_int \<lfloor>log 2 y\<rfloor> - 52) :: real"
    have u: "0 < ?u" by simp
    have "x / ?u \<le> y / ?u" using assms(2) u by (simp add: divide_right_mono)
    then have "round_even (x / ?u) \<le> round_even (y / ?u)" by (rule round_even_mono)
    then have "?u * of_int (round_even (x / ?u)) \<le> ?u * of_int (round_even (y / ?u))"
      using u by simp
    then show ?thesis
      using assms(1) y True by (simp add: b64_def Let_def)
  next
    case False
    with le have "\<lfloor>log 2 x\<rfloor> + 1 \<le> \<lfloor>log 2 y\<rfloor>" by simp
    then have "(of_int \<lfloor>log 2 x\<rfloor> + 1 :: real) \<le> of_int \<lfloor>log 2 y\<rfloor>"
      by (metis of_int_1 of_int_add of_int_le_iff)
    then have "(2::real) powr (of_int \<lfloor>log 2 x\<rfloor> + 1) \<le> 2 powr of_int \<lfloor>log 2 y\<rfloor>"
      by (simp only: powr_le_cancel_iff) 
    with b64_pos_bounds(2) [OF assms(1)] b64_pos_bounds(1) [OF y] show ?thesis by linarith
  qed
qed

lemma b64_nonneg:
  assumes "0 \<le> x"
  shows "0 \<le> b64 x"
proof (cases "x = 0")
  case True
  then show ?thesis by simp
next
  case False
  with assms have "0 < x" by simp
  moreover have "(0::real) \<le> 2 powr of_int \<lfloor>log 2 x\<rfloor>" by simp
  ultimately show ?thesis
    using b64_pos_bounds(1) [of x] by linarith
qed

lemma b64_mono:
  assumes "x \<le> y"
  shows "b64 x \<le> b64 y"
proof -
  consider "0 < x" | "x \<le> 0" "0 \<le> y" | "y < 0" by linarith
  then show ?thesis
  proof cases
    case 1
    then show ?thesis using assms by (rule b64_mono_pos)
  next
    case 2
    have "0 \<le> b64 (- x)" using 2(1) by (intro b64_nonneg) simp
    then have "b64 x \<le> 0" by (simp add: b64_minus)
    moreover have "0 \<le> b64 y" using 2(2) by (rule b64_nonneg)
    ultimately show ?thesis by linarith
  next
    case 3
    then have "0 < - y" and "- y \<le> - x" using assms by simp_all
    then have "b64 (- y) \<le> b64 (- x)" by (rule b64_mono_pos)
    then show ?thesis by (simp add: b64_minus)
  qed
qed

lemma b64_scaled:
  fixes j :: nat
  assumes "2 ^ 52 \<le> \<bar>x\<bar> * 2 ^ j" and "\<bar>x\<bar> * 2 ^ j < 2 ^ 53"
  shows "b64 x = of_int (round_even (x * 2 ^ j)) / 2 ^ j"
proof -
  have x0: "x \<noteq> 0" using assms(1) by auto
  then have ax: "0 < \<bar>x\<bar>" by simp
  have p: "(2::real) powr (52 - real j) = 2 ^ 52 / 2 ^ j"
    by (simp add: powr_diff powr_realpow)
  have q: "(2::real) powr (53 - real j) = 2 ^ 53 / 2 ^ j"
    by (simp add: powr_diff powr_realpow)
  have "2 powr (52 - real j) \<le> \<bar>x\<bar>"
    unfolding p using assms(1) by (simp add: pos_divide_le_eq)
  then have lo: "52 - real j \<le> log 2 \<bar>x\<bar>"
    using ax by (simp add: powr_le_iff)
  have "\<bar>x\<bar> < 2 powr (53 - real j)"
    unfolding q using assms(2) by (simp add: pos_less_divide_eq)
  then have hi: "log 2 \<bar>x\<bar> < 53 - real j"
    using ax by (simp add: less_powr_iff)
  have "\<lfloor>log 2 \<bar>x\<bar>\<rfloor> = 52 - int j"
  proof (rule floor_unique)
    show "of_int (52 - int j) \<le> log 2 \<bar>x\<bar>" using lo by simp
    show "log 2 \<bar>x\<bar> < of_int (52 - int j) + 1" using hi by simp
  qed
  then have e: "of_int \<lfloor>log 2 \<bar>x\<bar>\<rfloor> - 52 = - real j" by simp
  have u: "(2::real) powr (- real j) = 1 / 2 ^ j"
    by (simp add: powr_minus powr_realpow divide_inverse)
  show ?thesis
    using x0 by (simp add: b64_def Let_def e u)
qed

lemma b64_scaled_up:
  fixes j :: nat
  assumes "2 ^ 52 * 2 ^ j \<le> \<bar>x\<bar>" and "\<bar>x\<bar> < 2 ^ 53 * 2 ^ j"
  shows "b64 x = of_int (round_even (x / 2 ^ j)) * 2 ^ j"
proof -
  have "(0::real) < 2 ^ 52 * 2 ^ j" by simp
  with assms(1) have ax: "0 < \<bar>x\<bar>" by linarith
  then have x0: "x \<noteq> 0" by auto
  have p: "(2::real) powr (52 + real j) = 2 ^ 52 * 2 ^ j"
    by (simp add: powr_add powr_realpow)
  have q: "(2::real) powr (53 + real j) = 2 ^ 53 * 2 ^ j"
    by (simp add: powr_add powr_realpow)
  have "2 powr (52 + real j) \<le> \<bar>x\<bar>"
    unfolding p using assms(1) .
  then have lo: "52 + real j \<le> log 2 \<bar>x\<bar>"
    using ax by (simp add: powr_le_iff)
  have "\<bar>x\<bar> < 2 powr (53 + real j)"
    unfolding q using assms(2) .
  then have hi: "log 2 \<bar>x\<bar> < 53 + real j"
    using ax by (simp add: less_powr_iff)
  have "\<lfloor>log 2 \<bar>x\<bar>\<rfloor> = 52 + int j"
  proof (rule floor_unique)
    show "of_int (52 + int j) \<le> log 2 \<bar>x\<bar>" using lo by simp
    show "log 2 \<bar>x\<bar> < of_int (52 + int j) + 1" using hi by simp
  qed
  then have e: "of_int \<lfloor>log 2 \<bar>x\<bar>\<rfloor> - 52 = real j" by simp
  have u: "(2::real) powr real j = 2 ^ j"
    by (simp add: powr_realpow)
  show ?thesis
    using x0 by (simp add: b64_def Let_def e u)
qed

lemma b64_one [simp]: "b64 1 = 1"
  by (subst b64_scaled [of _ 52]) (simp_all add: round_even_def Let_def)

lemma b64_unit_interval:
  assumes "0 \<le> x" and "x \<le> 1"
  shows "0 \<le> b64 x" and "b64 x \<le> 1"
  using b64_mono [OF assms(1)] b64_mono [OF assms(2)] by simp_all

lemma b64_of_int_exact:
  assumes "\<bar>n\<bar> < 2 ^ 53"
  shows "b64 (real_of_int n) = real_of_int n"
proof (cases "n = 0")
  case True
  then show ?thesis by simp
next
  case False
  let ?x = "real_of_int n"
  have ax: "1 \<le> \<bar>?x\<bar>" using False by (simp flip: of_int_abs)
  then have pos: "0 < \<bar>?x\<bar>" by linarith
  have lt: "\<bar>?x\<bar> < 2 ^ 53"
    using assms by (metis of_int_abs of_int_less_iff of_int_numeral of_int_power)
  let ?e = "\<lfloor>log 2 \<bar>?x\<bar>\<rfloor>"
  have e0: "0 \<le> ?e" using ax by simp
  have "log 2 \<bar>?x\<bar> < 53"
    using lt pos by (simp add: log_less_iff powr_realpow [symmetric] del: powr_realpow)
  then have "?e < 53" by (simp add: floor_less_iff)
  then have e52: "?e \<le> 52" by simp
  define j where "j = nat (52 - ?e)"
  have j: "real j = 52 - of_int ?e" using e52 by (simp add: j_def)
  have pj: "(2::real) ^ j = 2 powr (52 - of_int ?e)"
    using powr_realpow [of "2::real" j] by (simp add: j)
  have a: "2 ^ 52 \<le> \<bar>?x\<bar> * 2 ^ j"
  proof -
    have "2 powr of_int ?e * 2 powr (52 - of_int ?e) \<le> \<bar>?x\<bar> * 2 powr (52 - of_int ?e)"
      using exponent_bounds(1) [OF pos] by (intro mult_right_mono) simp_all
    moreover have "(2::real) powr of_int ?e * 2 powr (52 - of_int ?e) = 2 ^ 52"
      using powr_realpow [of "2::real" 52] by (simp flip: powr_add)
    ultimately show ?thesis by (simp only: pj)
  qed
  have b: "\<bar>?x\<bar> * 2 ^ j < 2 ^ 53"
  proof -
    have "\<bar>?x\<bar> * 2 powr (52 - of_int ?e) < 2 powr (of_int ?e + 1) * 2 powr (52 - of_int ?e)"
      using exponent_bounds(2) [OF pos] by (intro mult_strict_right_mono) simp_all
    moreover have "(2::real) powr (of_int ?e + 1) * 2 powr (52 - of_int ?e) = 2 ^ 53"
      using powr_realpow [of "2::real" 53] by (simp flip: powr_add)
    ultimately show ?thesis by (simp only: pj)
  qed
  have "?x * 2 ^ j = of_int (n * 2 ^ j)" by simp
  then have "round_even (?x * 2 ^ j) = n * 2 ^ j" by (simp only: round_even_of_int)
  then show ?thesis
    by (simp add: b64_scaled [OF a b])
qed

lemma log10_2_bounds: "1 / 4 \<le> log 10 (2::real)" "log 10 (2::real) \<le> 3 / 8"
proof -
  have l10: "0 < ln (10::real)" by simp
  have "ln (10::real) \<le> ln (2 ^ 4)" by (subst ln_le_cancel_iff) simp_all
  also have "\<dots> = 4 * ln 2" by (subst ln_realpow) simp_all
  finally have "ln (10::real) \<le> 4 * ln 2" .
  then show "1 / 4 \<le> log 10 (2::real)"
    using l10 by (simp add: log_def pos_le_divide_eq)
  have "8 * ln (2::real) = ln (2 ^ 8)" by (subst ln_realpow) simp_all
  also have "\<dots> \<le> ln (10 ^ 3)" by (subst ln_le_cancel_iff) simp_all
  also have "\<dots> = 3 * ln 10" by (subst ln_realpow) simp_all
  finally have "8 * ln (2::real) \<le> 3 * ln 10" .
  then show "log 10 (2::real) \<le> 3 / 8"
    using l10 by (simp add: log_def pos_divide_le_eq)
qed

lemma log10_small:
  assumes "0 < x" and "x \<le> 17 / 100"
  shows "log 10 x \<le> - 3 / 4"
proof -
  have l10: "0 < ln (10::real)" by simp
  have "x ^ 4 \<le> (17 / 100) ^ 4" using assms by (intro power_mono) simp_all
  also have "\<dots> \<le> 1 / 10 ^ 3" by (simp add: power4_eq_xxxx)
  finally have "x ^ 4 \<le> 1 / 10 ^ 3" .
  moreover have "0 < x ^ 4" using assms(1) by simp
  ultimately have le: "ln (x ^ 4) \<le> ln (1 / 10 ^ 3)" by (subst ln_le_cancel_iff) simp_all
  have "4 * ln x = ln (x ^ 4)" using assms(1) by (subst ln_realpow) simp_all
  also note le
  also have "ln (1 / 10 ^ 3 :: real) = - ln (10 ^ 3)" by (subst ln_div) simp_all
  also have "\<dots> = - (3 * ln 10)" by (subst ln_realpow) simp_all
  finally have "4 * ln x \<le> - (3 * ln 10)" .
  then show ?thesis
    using l10 by (simp add: log_def pos_divide_le_eq)
qed

lemma b64_values:
  "b64 (- 2000) = - 2000" "b64 2000 = 2000" "b64 4 = 4" "b64 8000 = 8000"
  "b64 (- 750) = - 750" "b64 (- 3 / 4) = - 3 / 4" "b64 (1 / 4) = 1 / 4" "b64 (3 / 8) = 3 / 8"
  by (subst b64_scaled [of _ 42], simp, simp, simp add: round_even_def Let_def,
      subst b64_scaled [of _ 42], simp, simp, simp add: round_even_def Let_def,
      subst b64_scaled [of _ 50], simp, simp, simp add: round_even_def Let_def,
      subst b64_scaled [of _ 40], simp, simp, simp add: round_even_def Let_def,
      subst b64_scaled [of _ 43], simp, simp, simp add: round_even_def Let_def,
      subst b64_scaled [of _ 53], simp, simp, simp add: round_even_def Let_def,
      subst b64_scaled [of _ 54], simp, simp, simp add: round_even_def Let_def,
      subst b64_scaled [of _ 54], simp, simp, simp add: round_even_def Let_def)

lemma b64_steps:
  "b64 (13 / 15) = 1951559838527215 / 2251799813685248"
  "b64 (300239975158033 / 2251799813685248) = 300239975158033 / 2251799813685248"
  "b64 (37529996894754125 / 140737488355328) = 2345624805922133 / 8796093022208"
  "b64 (- (15246561238493867 / 8796093022208)) = - (3811640309623467 / 2199023255552)"
  "b64 (800 / 3) = 4691249611844267 / 17592186044416"
  "b64 (- (30493122476987733 / 17592186044416)) = - (7623280619246933 / 4398046511104)"
  by (subst b64_scaled [of _ 53], simp, simp, simp add: round_even_def Let_def,
      subst b64_scaled [of _ 55], simp, simp, simp add: round_even_def Let_def,
      subst b64_scaled [of _ 44], simp, simp, simp add: round_even_def Let_def,
      subst b64_scaled [of _ 42], simp, simp, simp add: round_even_def Let_def,
      subst b64_scaled [of _ 44], simp, simp, simp add: round_even_def Let_def,
      subst b64_scaled [of _ 42], simp, simp, simp add: round_even_def Let_def)

lemma b64_big_values:
  "b64 9007199254740994 = 9007199254740994"
  "b64 9007199254740995 = 9007199254740996"
  "b64 9007199254740996 = 9007199254740996"
  "b64 (- 1) = - 1"
  by (subst b64_scaled_up [of 1], simp, simp, simp add: round_even_def Let_def,
      subst b64_scaled_up [of 1], simp, simp, simp add: round_even_def Let_def,
      subst b64_scaled_up [of 1], simp, simp, simp add: round_even_def Let_def,
      subst b64_scaled [of _ 52], simp, simp, simp add: round_even_def Let_def)

lemma log10_rounded_bounds:
  "log10_rounded (300239975158033 / 2251799813685248) \<le> - 3 / 4"
  "1 / 4 \<le> log10_rounded 2" "log10_rounded 2 \<le> 3 / 8"
proof -
  have "log 10 (300239975158033 / 2251799813685248 :: real) \<le> - 3 / 4"
    by (rule log10_small) simp_all
  from b64_mono [OF this] show "log10_rounded (300239975158033 / 2251799813685248) \<le> - 3 / 4"
    by (simp only: log10_rounded_def b64_values)
  from b64_mono [OF log10_2_bounds(1)] show "1 / 4 \<le> log10_rounded 2"
    by (simp only: log10_rounded_def b64_values)
  from b64_mono [OF log10_2_bounds(2)] show "log10_rounded 2 \<le> 3 / 8"
    by (simp only: log10_rounded_def b64_values)
qed

lemma flat_b64_minus_26:
  "flat_vol2attn_b64 (- 26) 0 (- 2000) = (- 7623280619246933 / 4398046511104, [])"
  by (simp add: flat_vol2attn_b64_def b64_values b64_steps)

lemma dasl_b64_minus_26:
  assumes "log10 (300239975158033 / 2251799813685248) \<le> - 3 / 4"
    and "1 / 4 \<le> log10 2" and "log10 2 \<le> 3 / 8"
  shows "dasl_tapered_vol2attn_b64 log10 (- 26) 0 (- 2000) =
     (- 3811640309623467 / 2199023255552, [dasl_flat_used])"
proof -
  let ?p = "300239975158033 / 2251799813685248 :: real"
  let ?c = "log10 2"
  let ?b = "b64 (1000 * log10 ?p)"
  have "1000 * log10 ?p \<le> - 750" using assms(1) by simp
  from b64_mono [OF this] have b: "?b \<le> - 750" by (simp only: b64_values)
  have c: "0 < ?c" using assms(2) by simp
  have "?b / ?c \<le> - 2000"
    using b c assms(3) by (simp add: pos_divide_le_eq)
  from b64_mono [OF this] have d: "b64 (?b / ?c) \<le> - 2000" by (simp only: b64_values)
  then have "0 + b64 (?b / ?c) \<le> - 2000" by simp
  from b64_mono [OF this] have T: "b64 (0 + b64 (?b / ?c)) \<le> - 2000" by (simp only: b64_values)
  have lt: "b64 (0 + b64 (?b / ?c)) < - 3811640309623467 / 2199023255552"
    using T by simp
  show ?thesis
    using lt by (simp add: dasl_tapered_vol2attn_b64_def Let_def b64_values b64_steps)
qed

lemma dasl_b64_inexact_conversion:
  "dasl_tapered_vol2attn_b64 log10_rounded 0 9007199254740994 (- 1) =
     (9007199254740996, [dasl_flat_used])"
  by (simp add: dasl_tapered_vol2attn_b64_def Let_def log10_rounded_def b64_big_values)

section \<open>The claims\<close>

subsection \<open>C1: silence without dither\<close>

text \<open>
  Claim C1 says that with dithering disabled the generator fills the buffer with zero
  bytes for every supported format and every frame count. For \<open>SPS_FORMAT_U8\<close> the code
  writes \<open>128 + (uint8_t)(hyper_sample >> 56)\<close>, so silence is the byte 128: one frame
  of U8 silence from the generator seeded with 0 is the two bytes 128, 128.
\<close>

theorem silence_u8_counterexample:
  "generate_zero_frames True 1 SPS_FORMAT_U8 0 0 rx_seeded_0 =
     Inr ([128, 128], 6300928355164331924,
          \<lparr>ctx_a = 17711758762167285813, ctx_b = 7550599943039327812,
           ctx_c = 310677275243599081, ctx_d = 12601856710328663849\<rparr>)
   \<and> (128 :: 8 word) \<noteq> 0"
  by (simp add: generate_zero_frames_def dither_mask_of_def zero_frame_sample_def r64i_def
      tpdf_of_def hyper_sample_of_def byte_at_def rx_seeded_0_value ranval_def rot_def Let_def)

text \<open>
  Claim C1, amended: for every supported format and every frame count, with
  \<open>with_dither = 0\<close> the generator does not die and writes \<open>number_of_frames * 2\<close> samples
  of \<open>sample_length\<close> bytes each, every byte being 0, except for \<open>SPS_FORMAT_U8\<close>, where
  every byte is 128. This holds for every previous random number, every generator state
  and either byte order of the host.
\<close>

theorem silence_bytes:
  assumes "supported format"
  shows "\<exists>last_random rx'.
     generate_zero_frames host_le n format 0 prev rx =
       Inr (replicate (unat (n * 2) * sample_length format)
              (if format = SPS_FORMAT_U8 then 128 else 0), last_random, rx')"
  by (simp add: generate_zero_frames_run [OF assms] packed_run_silence [OF assms] length_draws)

theorem silence_bytes_witness:
  "supported SPS_FORMAT_U8 \<and> supported SPS_FORMAT_S24_3BE
   \<and> (\<exists>last_random rx'. generate_zero_frames True 3 SPS_FORMAT_U8 0 (- 1) rx_seeded_0 =
         Inr (replicate 6 128, last_random, rx'))
   \<and> (\<exists>last_random rx'. generate_zero_frames False 3 SPS_FORMAT_S24_3BE 0 (- 1) rx_seeded_0 =
         Inr (replicate 18 0, last_random, rx'))"
proof -
  have u: "supported SPS_FORMAT_U8" and s: "supported SPS_FORMAT_S24_3BE"
    by (simp_all add: supported_def)
  from silence_bytes [OF u, of True 3 "- 1" rx_seeded_0]
    silence_bytes [OF s, of False 3 "- 1" rx_seeded_0] u s
  show ?thesis by simp
qed

subsection \<open>C2: seeding and drawing\<close>

text \<open>
  Claim C2: seeding with any 64-bit value sets the state to \<open>a = 0xf1ea5eed\<close>,
  \<open>b = c = d = seed\<close> and then makes exactly 20 draws whose values are dropped; a draw
  computes \<open>e = a - rotl(b,7)\<close>, \<open>a' = b xor rotl(c,13)\<close>, \<open>b' = c + rotl(d,37)\<close>,
  \<open>c' = d + e\<close>, \<open>d' = e + a'\<close> with 64-bit left rotations and arithmetic modulo \<open>2 ^ 64\<close>,
  stores \<open>(a',b',c',d')\<close> and returns \<open>d'\<close>. The state after seeding does not depend on the
  state before it, so seeding again with the same value gives the same sequence of draws.
\<close>

theorem dither_source_seed_and_draw:
  "r64init seed rx = ((\<lambda>x. snd (spec_draw x)) ^^ 20) (spec_seed_state seed)
   \<and> ranval x = spec_draw x \<and> r64u x = spec_draw x
   \<and> draws n (r64init seed rx) = draws n (r64init seed rx')"
proof -
  have eq: "(\<lambda>y. snd (ranval y)) = (\<lambda>x. snd (spec_draw x))"
    by (simp add: ranval_eq_spec_draw)
  have "r64init seed rx = ((\<lambda>x. snd (spec_draw x)) ^^ 20) (spec_seed_state seed)" for rx
    by (simp only: r64init_def raninit_eq eq)
  then show ?thesis
    by (simp add: ranval_eq_spec_draw r64u_def)
qed

theorem dither_source_seed_and_draw_witness:
  "r64init 0 \<lparr>ctx_a = 0, ctx_b = 0, ctx_c = 0, ctx_d = 0\<rparr> =
     ((\<lambda>x. snd (spec_draw x)) ^^ 20) (spec_seed_state 0)
   \<and> draws 3 (r64init 0 \<lparr>ctx_a = 0, ctx_b = 0, ctx_c = 0, ctx_d = 0\<rparr>) =
       draws 3 (r64init 0 \<lparr>ctx_a = 1, ctx_b = 2, ctx_c = 3, ctx_d = 4\<rparr>)"
  using dither_source_seed_and_draw
    [of 0 "\<lparr>ctx_a = 0, ctx_b = 0, ctx_c = 0, ctx_d = 0\<rparr>" _ 3
        "\<lparr>ctx_a = 1, ctx_b = 2, ctx_c = 3, ctx_d = 4\<rparr>"]
  by blast

subsection \<open>C3: the value drawn in the loop\<close>

text \<open>
  Claim C3 says that the value \<open>r\<close> used for \<open>tpdf\<close> and kept as the previous random number
  is the value \<open>d'\<close> that a draw returns. The loop draws with \<open>r64i\<close>, which returns
  \<open>ranval(&rx) >> 1\<close>. With the generator seeded with 0, one frame of \<open>S16_LE\<close> returns the
  last random number 6300928355164331924, while the second draw returned
  12601856710328663849.
\<close>

theorem drawn_value_counterexample:
  "generate_zero_frames True 1 SPS_FORMAT_S16_LE 1 0 rx_seeded_0 =
     Inr ([0, 0, 255, 255], 6300928355164331924,
          \<lparr>ctx_a = 17711758762167285813, ctx_b = 7550599943039327812,
           ctx_c = 310677275243599081, ctx_d = 12601856710328663849\<rparr>)
   \<and> fst (ranval (snd (ranval rx_seeded_0))) = 12601856710328663849
   \<and> (6300928355164331924 :: 64 word) \<noteq> 12601856710328663849"
  by (simp add: generate_zero_frames_def dither_mask_of_def zero_frame_sample_def r64i_def
      tpdf_of_def hyper_sample_of_def byte_at_def rx_seeded_0_value ranval_def rot_def Let_def
      ucast_minus_1_byte)

text \<open>
  Claim C3, amended: in every pass of the loop the value \<open>r\<close> used in
  \<open>tpdf = (r & mask) - (previous_random & mask)\<close> and then kept as the previous random
  number is the value \<open>d'\<close> returned by the draw at that step shifted right by one bit.
  For a supported format one pass writes the sample packed from that \<open>tpdf\<close>, keeps
  \<open>d' >> 1\<close> and leaves the generator as the draw left it; the whole call writes the samples
  packed from the halved draws in order, each against the halved draw before it (the
  first against \<open>random_number_in\<close>), and returns the last halved draw.
\<close>

theorem drawn_value_is_halved:
  assumes "supported format"
  shows "zero_frame_sample host_le format w m rx prev =
       Inr (sample_bytes host_le format
              (hyper_sample_of w (tpdf_of (drop_bit 1 (fst (ranval rx))) prev m)),
            drop_bit 1 (fst (ranval rx)), snd (ranval rx))
   \<and> generate_zero_frames host_le n format w prev rx =
       Inr (packed_run host_le format w (2 ^ (64 - spec_bit_width format) - 1) prev
              (map (drop_bit 1) (draws (unat (n * 2)) rx)),
            last (prev # map (drop_bit 1) (draws (unat (n * 2)) rx)),
            ((\<lambda>y. snd (ranval y)) ^^ unat (n * 2)) rx)"
  by (simp only: zero_frame_sample_supported [OF assms] generate_zero_frames_run [OF assms]
      mask_eq_exp_minus_1 simp_thms)

theorem drawn_value_is_halved_witness:
  "supported SPS_FORMAT_S16_LE
   \<and> generate_zero_frames True 1 SPS_FORMAT_S16_LE 1 0 rx_seeded_0 =
       Inr ([0, 0, 255, 255], drop_bit 1 12601856710328663849,
            \<lparr>ctx_a = 17711758762167285813, ctx_b = 7550599943039327812,
             ctx_c = 310677275243599081, ctx_d = 12601856710328663849\<rparr>)"
proof -
  have s: "supported SPS_FORMAT_S16_LE" by (simp add: supported_def)
  from drawn_value_is_halved [OF s, of True 1 0 rx_seeded_0 0 1, THEN conjunct2] s
  show ?thesis
    by (simp add: draws_numeral funpow_numeral_left sample_bytes_def tpdf_of_def
        hyper_sample_of_def byte_at_def rx_seeded_0_value ranval_def rot_def Let_def
        ucast_minus_1_byte)
qed

subsection \<open>C4: the flat profile\<close>

text \<open>
  Claim C4: for \<open>min_db < max_db\<close> the flat profile gives \<open>max_db\<close> at volume 0 and
  \<open>min_db\<close> at volumes -30 and -144; on \<open>[-30, 0]\<close> it is
  \<open>min_db + (max_db - min_db) * (30 + vol) / 30\<close>, so it is linear (equal steps of volume
  give equal steps of attenuation) and non-decreasing; and with \<open>min_db = -6000\<close>,
  \<open>max_db = 0\<close> it gives -3000 at -15, 0 at 0 and -6000 at -144. None of these calls logs.
\<close>

theorem flat_profile:
  assumes "min_db < max_db" and "- 30 \<le> v1" and "v1 \<le> v2" and "v2 \<le> 0"
  shows "flat_vol2attn 0 max_db min_db = (real_of_int max_db, [])
   \<and> flat_vol2attn (- 30) max_db min_db = (real_of_int min_db, [])
   \<and> flat_vol2attn (- 144) max_db min_db = (real_of_int min_db, [])
   \<and> flat_vol2attn v1 max_db min_db =
       (real_of_int min_db + real_of_int (max_db - min_db) * (30 + v1) / 30, [])
   \<and> fst (flat_vol2attn v2 max_db min_db) - fst (flat_vol2attn v1 max_db min_db) =
       real_of_int (max_db - min_db) / 30 * (v2 - v1)
   \<and> fst (flat_vol2attn v1 max_db min_db) \<le> fst (flat_vol2attn v2 max_db min_db)
   \<and> flat_vol2attn (- 15) 0 (- 6000) = (- 3000, [])
   \<and> flat_vol2attn 0 0 (- 6000) = (0, [])
   \<and> flat_vol2attn (- 144) 0 (- 6000) = (- 6000, [])"
proof -
  have v1: "v1 \<le> 0" and v2: "- 30 \<le> v2" using assms by simp_all
  have f1: "flat_vol2attn v1 max_db min_db =
       (real_of_int min_db + real_of_int (max_db - min_db) * (30 + v1) / 30, [])"
    using assms(2) v1 by (simp add: flat_vol2attn_def)
  have f2: "flat_vol2attn v2 max_db min_db =
       (real_of_int min_db + real_of_int (max_db - min_db) * (30 + v2) / 30, [])"
    using assms(4) v2 by (simp add: flat_vol2attn_def)
  have lin: "fst (flat_vol2attn v2 max_db min_db) - fst (flat_vol2attn v1 max_db min_db) =
       real_of_int (max_db - min_db) / 30 * (v2 - v1)"
    by (simp add: f1 f2 field_simps)
  have "0 \<le> real_of_int (max_db - min_db) / 30 * (v2 - v1)"
    using assms(1,3) by simp
  with lin have mono: "fst (flat_vol2attn v1 max_db min_db) \<le> fst (flat_vol2attn v2 max_db min_db)"
    by linarith
  have ends: "flat_vol2attn 0 max_db min_db = (real_of_int max_db, [])"
    "flat_vol2attn (- 30) max_db min_db = (real_of_int min_db, [])"
    "flat_vol2attn (- 144) max_db min_db = (real_of_int min_db, [])"
    by (simp_all add: flat_vol2attn_def field_simps)
  have ex: "flat_vol2attn (- 15) 0 (- 6000) = (- 3000, [])"
    "flat_vol2attn 0 0 (- 6000) = (0, [])"
    "flat_vol2attn (- 144) 0 (- 6000) = (- 6000, [])"
    by (simp_all add: flat_vol2attn_def)
  from f1 lin mono ends ex show ?thesis by blast
qed

theorem flat_profile_witness:
  "(- 6000 :: int) < 0 \<and> (- 30 :: real) \<le> - 15 \<and> (- 15 :: real) \<le> - 6 \<and> (- 6 :: real) \<le> 0
   \<and> flat_vol2attn (- 15) 0 (- 6000) = (- 3000, [])
   \<and> fst (flat_vol2attn (- 15) 0 (- 6000)) \<le> fst (flat_vol2attn (- 6) 0 (- 6000))"
proof -
  have h: "(- 6000 :: int) < 0" "(- 30 :: real) \<le> - 15" "(- 15 :: real) \<le> - 6"
    "(- 6 :: real) \<le> 0" by simp_all
  from flat_profile [OF h] h show ?thesis by blast
qed

subsection \<open>C5: the tapered profile\<close>

text \<open>
  Claim C5 says that for \<open>min_db \<le> max_db\<close> and every valid volume the tapered profile
  lies between \<open>min_db\<close> and \<open>max_db\<close> and is at least the flat profile. The tapered
  profile floors its result at \<open>min_db + (max_db - min_db) * vol_pct\<close>, the flat profile
  computes \<open>(max_db - min_db) * (30.0 + vol) / 30 + min_db\<close>; the two agree in exact
  arithmetic (\<open>dasl_tapered_exact\<close>) and round differently. At volume -26 with
  \<open>max_db = 0\<close> and \<open>min_db = -2000\<close> the tapered profile returns its floor
  \<open>-3811640309623467 / 2 ^ 41\<close> (-1733.3333333333335), one unit in the last place below the
  flat profile's \<open>-7623280619246933 / 2 ^ 42\<close> (-1733.3333333333333).
\<close>

theorem dasl_below_flat_counterexample:
  "fst (dasl_tapered_vol2attn_b64 log10_rounded (- 26) 0 (- 2000)) = - 3811640309623467 / 2199023255552
   \<and> fst (flat_vol2attn_b64 (- 26) 0 (- 2000)) = - 7623280619246933 / 4398046511104
   \<and> (- 3811640309623467 / 2199023255552 :: real) < - 7623280619246933 / 4398046511104
   \<and> (- 2000 :: int) \<le> 0 \<and> (- 30 :: real) \<le> - 26 \<and> (- 26 :: real) \<le> 0"
  by (simp add: dasl_b64_minus_26 [OF log10_rounded_bounds] flat_b64_minus_26)

text \<open>
  Claim C5, amended: for \<open>min_db \<le> max_db\<close> whose conversions to \<open>double\<close>, and that of
  \<open>max_db - min_db\<close>, are exact (as they are for magnitudes below \<open>2 ^ 53\<close>,
  \<open>b64_of_int_exact\<close>), and for every valid volume (in \<open>[-30, 0]\<close>, or -144), the result of
  the tapered profile lies between \<open>min_db\<close> and \<open>max_db\<close> and is at least the flat floor
  that the tapered profile computes itself, \<open>min_db + (max_db - min_db) * (1 - vol / -30)\<close>
  in binary64. This holds whatever \<open>log10\<close> returns. Against the result of the flat
  profile nothing is stated: the floor is that value up to rounding only. Without exact
  conversions the upper bound can fail (\<open>dasl_b64_inexact_conversion\<close>).
\<close>

theorem dasl_tapered_b64_bounds:
  assumes "min_db \<le> max_db"
    and "b64 (real_of_int min_db) = real_of_int min_db"
    and "b64 (real_of_int max_db) = real_of_int max_db"
    and "b64 (real_of_int (max_db - min_db)) = real_of_int (max_db - min_db)"
    and "(- 30 \<le> vol \<and> vol \<le> 0) \<or> vol = - 144"
  shows "real_of_int min_db \<le> fst (dasl_tapered_vol2attn_b64 log10 vol max_db min_db)
   \<and> fst (dasl_tapered_vol2attn_b64 log10 vol max_db min_db) \<le> real_of_int max_db
   \<and> dasl_flat_setting_b64 vol max_db min_db
        \<le> fst (dasl_tapered_vol2attn_b64 log10 vol max_db min_db)"
proof -
  let ?m = "real_of_int min_db" and ?M = "real_of_int max_db"
  let ?R = "real_of_int (max_db - min_db)"
  let ?p = "b64 (1 - b64 (vol / (- 30)))"
  let ?F = "b64 (?m + b64 (?R * ?p))"
  have mM: "?m \<le> ?M" using assms(1) by simp
  have R: "0 \<le> ?R" using assms(1) by simp
  have sum: "?m + ?R = ?M" by simp
  have Fdef: "dasl_flat_setting_b64 vol max_db min_db = ?F"
    by (simp only: dasl_flat_setting_b64_def assms(2,4))
  have F_le_m: "?F \<le> ?m" if "?p \<le> 0"
  proof -
    have "?R * ?p \<le> 0" using R that by (rule mult_nonneg_nonpos)
    then have "b64 (?R * ?p) \<le> 0" using b64_mono [of "?R * ?p" 0] by simp
    then have "?m + b64 (?R * ?p) \<le> ?m" by simp
    from b64_mono [OF this] show ?thesis by (simp only: assms(2))
  qed
  show ?thesis
  proof (cases "vol = - 144")
    case True
    have "1 \<le> vol / (- 30)" using True by simp
    then have "1 \<le> b64 (vol / (- 30))" using b64_mono [of 1 "vol / (- 30)"] by simp
    then have "1 - b64 (vol / (- 30)) \<le> 0" by simp
    then have "?p \<le> 0" using b64_mono [of "1 - b64 (vol / (- 30))" 0] by simp
    from F_le_m [OF this] have "?F \<le> ?m" .
    moreover have "dasl_tapered_vol2attn_b64 log10 vol max_db min_db = (?m, [])"
      using True by (simp add: dasl_tapered_vol2attn_b64_def assms(2))
    ultimately show ?thesis using mM by (simp only: Fdef fst_conv) simp
  next
    case False
    with assms(5) have lo: "- 30 \<le> vol" and hi: "vol \<le> 0" by simp_all
    have "0 \<le> vol / (- 30)" and "vol / (- 30) \<le> 1" using lo hi by simp_all
    then have q: "0 \<le> b64 (vol / (- 30))" "b64 (vol / (- 30)) \<le> 1"
      by (rule b64_unit_interval)+
    then have "0 \<le> 1 - b64 (vol / (- 30))" and "1 - b64 (vol / (- 30)) \<le> 1" by simp_all
    then have p: "0 \<le> ?p" "?p \<le> 1" by (rule b64_unit_interval)+
    have "0 \<le> ?R * ?p" using R p(1) by (rule mult_nonneg_nonneg)
    then have Rp0: "0 \<le> b64 (?R * ?p)" by (rule b64_nonneg)
    have "?R * ?p \<le> ?R * 1" using p(2) R by (rule mult_left_mono)
    then have "?R * ?p \<le> ?R" by simp
    from b64_mono [OF this] have RpR: "b64 (?R * ?p) \<le> ?R" by (simp only: assms(4))
    have "?m \<le> ?m + b64 (?R * ?p)" using Rp0 by simp
    from b64_mono [OF this] have Fm: "?m \<le> ?F" by (simp only: assms(2))
    have "?m + b64 (?R * ?p) \<le> ?M" using RpR sum by linarith
    from b64_mono [OF this] have FM: "?F \<le> ?M" by (simp only: assms(3))
    show ?thesis
    proof (cases "?p \<le> 0")
      case True
      from F_le_m [OF True] have "?F \<le> ?m" .
      moreover have "dasl_tapered_vol2attn_b64 log10 vol max_db min_db = (?m, [])"
        using lo hi True by (simp add: dasl_tapered_vol2attn_b64_def assms(2))
      ultimately show ?thesis using mM by (simp only: Fdef fst_conv) simp
    next
      case False
      let ?T = "b64 (?M + b64 (b64 (1000 * log10 ?p) / log10 2))"
      have c: "(vol \<le> 0 \<and> vol \<ge> - 30) = True" and np: "(?p \<le> 0) = False"
        using lo hi False by simp_all
      have d: "dasl_tapered_vol2attn_b64 log10 vol max_db min_db =
          (if ?T < ?F then (?F, [dasl_flat_used])
           else if ?T > ?M then (?M, []) else (?T, []))"
        by (simp only: dasl_tapered_vol2attn_b64_def Let_def c np if_True if_False assms(2,3,4))
      show ?thesis
        unfolding d Fdef using Fm FM by auto
    qed
  qed
qed

theorem dasl_tapered_b64_bounds_witness:
  "(- 2000 :: int) \<le> 0
   \<and> b64 (real_of_int (- 2000)) = real_of_int (- 2000)
   \<and> b64 (real_of_int 0) = real_of_int 0
   \<and> b64 (real_of_int (0 - (- 2000))) = real_of_int (0 - (- 2000))
   \<and> ((- 30 \<le> (- 26 :: real) \<and> (- 26 :: real) \<le> 0) \<or> (- 26 :: real) = - 144)
   \<and> real_of_int (- 2000) \<le> fst (dasl_tapered_vol2attn_b64 log10_rounded (- 26) 0 (- 2000))
   \<and> fst (dasl_tapered_vol2attn_b64 log10_rounded (- 26) 0 (- 2000)) \<le> real_of_int 0
   \<and> dasl_flat_setting_b64 (- 26) 0 (- 2000)
        \<le> fst (dasl_tapered_vol2attn_b64 log10_rounded (- 26) 0 (- 2000))"
proof -
  have a: "(- 2000 :: int) \<le> 0" by simp
  have b: "b64 (real_of_int (- 2000)) = real_of_int (- 2000)" by (simp add: b64_values)
  have c: "b64 (real_of_int 0) = real_of_int 0" by simp
  have d: "b64 (real_of_int (0 - (- 2000))) = real_of_int (0 - (- 2000))" by (simp add: b64_values)
  have e: "(- 30 \<le> (- 26 :: real) \<and> (- 26 :: real) \<le> 0) \<or> (- 26 :: real) = - 144" by simp
  from dasl_tapered_b64_bounds [OF a b c d e, of log10_rounded] a b c d e
  show ?thesis by blast
qed

subsection \<open>C6: the standard profile\<close>

text \<open>
  Claim C6: for \<open>min_db \<le> max_db\<close> the standard profile is non-decreasing on \<open>[-30, 0]\<close>
  (for \<open>-30 \<le> v1 \<le> v2 \<le> 0\<close> its result at \<open>v1\<close> is at most its result at \<open>v2\<close>), and at
  volume 0 it gives \<open>max_db\<close>. On that range it neither dies nor logs.
\<close>

theorem standard_monotone:
  assumes "min_db \<le> max_db" and "- 30 \<le> v1" and "v1 \<le> v2" and "v2 \<le> 0"
  shows "\<exists>s1 s2. vol2attn v1 max_db min_db = Inr (s1, [])
     \<and> vol2attn v2 max_db min_db = Inr (s2, []) \<and> s1 \<le> s2
     \<and> vol2attn 0 max_db min_db = Inr (real_of_int max_db, [])"
proof -
  let ?r = "max_db - min_db"
  let ?y0 = "- real_of_int (?r div 2)"
  let ?y1 = "(- real_of_int (?r div 2) - real_of_int ?r) / 2"
  let ?y2 = "- real_of_int ?r"
  let ?f = "\<lambda>v. line_pass (- 17) ?y2 v (line_pass (- 5) ?y1 v (line_pass 0 ?y0 v 0))"
  have r: "0 \<le> ?r" using assms(1) by simp
  then have h: "0 \<le> ?r div 2" by simp
  have y0: "?y0 \<le> 0" using h by simp
  have "0 \<le> real_of_int (?r div 2)" and "0 \<le> real_of_int ?r"
    using h r by (simp_all only: of_int_0_le_iff)
  moreover have "(- a - b) / 2 \<le> 0" if "0 \<le> a" and "0 \<le> b" for a b :: real
    using that by simp
  ultimately have y1: "?y1 \<le> 0" by blast
  have y2: "?y2 \<le> 0" using r by simp
  have v1: "v1 \<le> 0" and v2: "- 30 \<le> v2" using assms by simp_all
  have "line_pass 0 ?y0 v1 0 \<le> line_pass 0 ?y0 v2 0"
    by (rule line_pass_mono [OF y0 _ assms(3)]) simp_all
  then have "line_pass (- 5) ?y1 v1 (line_pass 0 ?y0 v1 0)
      \<le> line_pass (- 5) ?y1 v2 (line_pass 0 ?y0 v2 0)"
    by (intro line_pass_mono [OF y1 _ assms(3)]) simp_all
  then have mono: "?f v1 \<le> ?f v2"
    by (intro line_pass_mono [OF y2 _ assms(3)]) simp_all
  have zero: "?f 0 = 0"
    by (simp add: line_pass_def)
  have a: "vol2attn v1 max_db min_db = Inr (?f v1 + real_of_int max_db, [])"
    by (rule vol2attn_in_range [OF assms(1,2) v1])
  have b: "vol2attn v2 max_db min_db = Inr (?f v2 + real_of_int max_db, [])"
    by (rule vol2attn_in_range [OF assms(1) v2 assms(4)])
  have c: "vol2attn 0 max_db min_db = Inr (real_of_int max_db, [])"
    using vol2attn_in_range [OF assms(1), of 0] zero by simp
  from a b c mono show ?thesis by simp
qed

theorem standard_monotone_witness:
  "(- 6000 :: int) \<le> 0 \<and> (- 30 :: real) \<le> - 20 \<and> (- 20 :: real) \<le> - 3 \<and> (- 3 :: real) \<le> 0
   \<and> (\<exists>s1 s2. vol2attn (- 20) 0 (- 6000) = Inr (s1, [])
     \<and> vol2attn (- 3) 0 (- 6000) = Inr (s2, []) \<and> s1 \<le> s2
     \<and> vol2attn 0 0 (- 6000) = Inr (real_of_int 0, []))"
proof -
  have h: "(- 6000 :: int) \<le> 0" "(- 30 :: real) \<le> - 20" "(- 20 :: real) \<le> - 3"
    "(- 3 :: real) \<le> 0" by simp_all
  from standard_monotone [OF h] h show ?thesis by blast
qed

subsection \<open>C7: volumes out of range\<close>

text \<open>
  Claim C7: each of the three profiles returns exactly \<open>min_db\<close> for the volume -144 and
  makes no call to the log; for any other volume outside \<open>[-30, 0]\<close> it makes one call
  \<open>debug(1, ...)\<close> with its out-of-range message and returns exactly \<open>min_db\<close>. Since
  \<open>-144 < -30\<close>, both cases are volumes below -30 or above 0.
\<close>

theorem volume_out_of_range:
  assumes "vol < - 30 \<or> 0 < vol"
  shows "flat_vol2attn vol max_db min_db =
       (real_of_int min_db, if vol = - 144 then [] else [flat_out_of_range])
   \<and> dasl_tapered_vol2attn vol max_db min_db =
       (real_of_int min_db, if vol = - 144 then [] else [dasl_out_of_range])
   \<and> vol2attn vol max_db min_db =
       Inr (real_of_int min_db, if vol = - 144 then [] else [vol2attn_out_of_range])"
  using assms
  by (auto simp add: flat_vol2attn_def dasl_tapered_vol2attn_def vol2attn_def Let_def)

theorem volume_out_of_range_witness:
  "((- 144 :: real) < - 30 \<or> (0 :: real) < - 144) \<and> ((5 :: real) < - 30 \<or> (0 :: real) < 5)
   \<and> flat_vol2attn (- 144) 0 (- 6000) = (- 6000, [])
   \<and> dasl_tapered_vol2attn (- 144) 0 (- 6000) = (- 6000, [])
   \<and> vol2attn (- 144) 0 (- 6000) = Inr (- 6000, [])
   \<and> flat_vol2attn 5 0 (- 6000) = (- 6000, [flat_out_of_range])
   \<and> dasl_tapered_vol2attn 5 0 (- 6000) = (- 6000, [dasl_out_of_range])
   \<and> vol2attn 5 0 (- 6000) = Inr (- 6000, [vol2attn_out_of_range])"
proof -
  have m: "(- 144 :: real) < - 30 \<or> (0 :: real) < - 144" and o: "(5 :: real) < - 30 \<or> (0 :: real) < 5"
    by simp_all
  from volume_out_of_range [OF m, of 0 "- 6000"] volume_out_of_range [OF o, of 0 "- 6000"] m o
  show ?thesis by simp
qed

subsection \<open>C8: S16_LE against S16_BE\<close>

text \<open>
  Claim C8: for every frame count, previous random number, dither flag and generator
  state, the buffers written for \<open>S16_LE\<close> and for \<open>S16_BE\<close> have the same length, and each
  two-byte sample of one is the other's sample with its bytes exchanged (\<open>swap16\<close>, whose
  effect on positions \<open>2 * i\<close> and \<open>2 * i + 1\<close> is lemma \<open>swap16_nth\<close>). Both calls return the
  same last random number and leave the generator in the same state.
\<close>

theorem s16_le_be_byte_swapped:
  "\<exists>outp last_random rx'.
     generate_zero_frames host_le n SPS_FORMAT_S16_LE w prev rx = Inr (outp, last_random, rx')
   \<and> generate_zero_frames host_le n SPS_FORMAT_S16_BE w prev rx =
       Inr (swap16 outp, last_random, rx')
   \<and> length (swap16 outp) = length outp \<and> length outp = unat (n * 2) * 2"
proof -
  have le: "supported SPS_FORMAT_S16_LE" and be: "supported SPS_FORMAT_S16_BE"
    by (simp_all add: supported_def)
  show ?thesis
    by (simp add: generate_zero_frames_run [OF le] generate_zero_frames_run [OF be]
        packed_run_s16_swap length_swap16 length_packed_run [OF le] length_draws)
qed

theorem s16_le_be_byte_swapped_witness:
  "\<exists>outp last_random rx'.
     generate_zero_frames True 1 SPS_FORMAT_S16_LE 1 0 rx_seeded_0 = Inr (outp, last_random, rx')
   \<and> generate_zero_frames True 1 SPS_FORMAT_S16_BE 1 0 rx_seeded_0 =
       Inr (swap16 outp, last_random, rx')
   \<and> length (swap16 outp) = length outp \<and> length outp = unat (1 * 2 :: 64 word) * 2"
  by (rule s16_le_be_byte_swapped)

subsection \<open>C9: the size of the dither\<close>

text \<open>
  Claim C9: for every supported format, of bit width \<open>bw\<close> in \<open>{8, 16, 24, 32}\<close>, the mask is
  \<open>2 ^ (64 - bw) - 1\<close>, and for every drawn \<open>r\<close> and every previous random number, of either
  sign, \<open>tpdf = (r & mask) - (previous_random & mask)\<close> read as a signed 64-bit value lies
  between \<open>-mask\<close> and \<open>mask\<close>; so the sample before it is shifted has magnitude at most
  \<open>mask\<close>, with or without dither.
\<close>

theorem dither_bounded:
  assumes "supported format"
  shows "spec_bit_width format \<in> {8, 16, 24, 32}
   \<and> dither_mask_of format = Inr (2 ^ (64 - spec_bit_width format) - 1)
   \<and> sint (2 ^ (64 - spec_bit_width format) - 1 :: 64 word) = 2 ^ (64 - spec_bit_width format) - 1
   \<and> - (2 ^ (64 - spec_bit_width format) - 1)
        \<le> sint (tpdf_of r prev (2 ^ (64 - spec_bit_width format) - 1))
   \<and> sint (tpdf_of r prev (2 ^ (64 - spec_bit_width format) - 1))
        \<le> 2 ^ (64 - spec_bit_width format) - 1
   \<and> \<bar>sint (hyper_sample_of with_dither (tpdf_of r prev (2 ^ (64 - spec_bit_width format) - 1)))\<bar>
        \<le> 2 ^ (64 - spec_bit_width format) - 1"
proof -
  let ?n = "64 - spec_bit_width format"
  have w: "spec_bit_width format \<in> {8, 16, 24, 32}"
    by (rule spec_bit_width_supported [OF assms])
  then have n: "?n < 64" by auto
  have m: "(2 ^ ?n - 1 :: 64 word) = mask ?n"
    by (simp only: mask_eq_exp_minus_1)
  have p: "(1::int) \<le> 2 ^ ?n" by simp
  note b = tpdf_of_bounds [OF n, of r prev]
  have h: "\<bar>sint (hyper_sample_of with_dither (tpdf_of r prev (mask ?n)))\<bar> \<le> 2 ^ ?n - 1"
  proof (cases "with_dither = 0")
    case True
    with p show ?thesis by (simp add: hyper_sample_of_def)
  next
    case False
    then have eq: "hyper_sample_of with_dither (tpdf_of r prev (mask ?n)) = tpdf_of r prev (mask ?n)"
      by (simp add: hyper_sample_of_def)
    from b show ?thesis unfolding eq abs_le_iff by auto
  qed
  show ?thesis
    unfolding m using w dither_mask_of_supported [OF assms] sint_mask [OF n] b h by blast
qed

theorem dither_bounded_witness:
  "supported SPS_FORMAT_S16_BE
   \<and> dither_mask_of SPS_FORMAT_S16_BE = Inr (2 ^ 48 - 1)
   \<and> - (2 ^ 48 - 1) \<le> sint (tpdf_of 5 (- 1) (2 ^ 48 - 1))
   \<and> sint (tpdf_of 5 (- 1) (2 ^ 48 - 1)) \<le> 2 ^ 48 - 1
   \<and> \<bar>sint (hyper_sample_of 1 (tpdf_of 5 (- 1) (2 ^ 48 - 1)))\<bar> \<le> 2 ^ 48 - 1"
proof -
  have s: "supported SPS_FORMAT_S16_BE" by (simp add: supported_def)
  from dither_bounded [OF s, of 5 "- 1" 1] s show ?thesis by simp
qed

subsection \<open>C10: the sign of the random numbers\<close>

text \<open>
  Claim C10 says that every value drawn in the loop is the output of the generator
  shifted right by one bit, hence not negative, and that therefore every call for at
  least one frame returns a last random number that is not negative. The loop runs
  \<open>number_of_frames * 2\<close> times, a product of \<open>size_t\<close>: for \<open>2 ^ 63\<close> frames it is 0, the loop
  is not entered and \<open>random_number_in\<close>, here -7, is returned as it came.
\<close>

theorem last_random_wrap_counterexample:
  "generate_zero_frames True (2 ^ 63) SPS_FORMAT_S16 1 (- 7) rx_seeded_0 =
     Inr ([], - 7, rx_seeded_0)
   \<and> 1 \<le> unat (2 ^ 63 :: 64 word) \<and> sint (- 7 :: 64 word) < 0"
proof -
  have "supported SPS_FORMAT_S16" by (simp add: supported_def)
  from generate_zero_frames_wrap [OF this, of True 1 "- 7" rx_seeded_0]
  show ?thesis by simp
qed

text \<open>
  Claim C10, amended: the values drawn in the loop are those that successive calls of
  \<open>r64i\<close> return, each the output of the generator shifted right by one bit and so, as a
  signed 64-bit value, in \<open>[0, 2 ^ 63)\<close>; the call returns the last of them, which is not
  negative, whenever the loop is entered, that is whenever \<open>number_of_frames * 2\<close> is not 0
  in \<open>size_t\<close> (for a 64-bit \<open>size_t\<close>: at least one frame, and not \<open>2 ^ 63\<close> frames). When the
  product is 0 the call returns \<open>random_number_in\<close> unchanged.
\<close>

theorem last_random_nonneg:
  assumes "supported format"
  shows "generate_zero_frames host_le n format w prev rx =
       Inr (packed_run host_le format w (2 ^ (64 - spec_bit_width format) - 1) prev
              (r64i_draws (unat (n * 2)) rx),
            last (prev # r64i_draws (unat (n * 2)) rx),
            ((\<lambda>y. snd (r64i y)) ^^ unat (n * 2)) rx)
   \<and> r64i_draws (unat (n * 2)) rx = map (drop_bit 1) (draws (unat (n * 2)) rx)
   \<and> (\<forall>r \<in> set (r64i_draws (unat (n * 2)) rx). 0 \<le> sint r \<and> uint r < 2 ^ 63)
   \<and> (n * 2 \<noteq> 0 \<longrightarrow>
        last (prev # r64i_draws (unat (n * 2)) rx) \<in> set (r64i_draws (unat (n * 2)) rx)
        \<and> 0 \<le> sint (last (prev # r64i_draws (unat (n * 2)) rx)))"
proof -
  let ?rs = "r64i_draws (unat (n * 2)) rx"
  have run: "generate_zero_frames host_le n format w prev rx =
       Inr (packed_run host_le format w (2 ^ (64 - spec_bit_width format) - 1) prev ?rs,
            last (prev # ?rs), ((\<lambda>y. snd (r64i y)) ^^ unat (n * 2)) rx)"
    by (simp only: generate_zero_frames_run [OF assms] r64i_draws_eq snd_r64i mask_eq_exp_minus_1)
  have rng: "\<forall>r \<in> set ?rs. 0 \<le> sint r \<and> uint r < 2 ^ 63"
    using r64i_draws_range by blast
  have lst: "last (prev # ?rs) \<in> set ?rs \<and> 0 \<le> sint (last (prev # ?rs))" if "n * 2 \<noteq> 0"
  proof -
    from that have "unat (n * 2) \<noteq> 0" by (simp add: unat_eq_0)
    then have "?rs \<noteq> []"
      using length_r64i_draws [of "unat (n * 2)" rx] by auto
    then have "last (prev # ?rs) \<in> set ?rs" by simp
    with rng show ?thesis by blast
  qed
  from run rng lst r64i_draws_eq [of "unat (n * 2)" rx] show ?thesis by blast
qed

theorem last_random_nonneg_witness:
  "supported SPS_FORMAT_S16 \<and> (1 * 2 :: 64 word) \<noteq> 0
   \<and> generate_zero_frames True 1 SPS_FORMAT_S16 1 (- 1) rx_seeded_0 =
       Inr (packed_run True SPS_FORMAT_S16 1 (2 ^ (64 - spec_bit_width SPS_FORMAT_S16) - 1) (- 1)
              (r64i_draws (unat (1 * 2 :: 64 word)) rx_seeded_0),
            last (- 1 # r64i_draws (unat (1 * 2 :: 64 word)) rx_seeded_0),
            ((\<lambda>y. snd (r64i y)) ^^ unat (1 * 2 :: 64 word)) rx_seeded_0)
   \<and> 0 \<le> sint (last (- 1 # r64i_draws (unat (1 * 2 :: 64 word)) rx_seeded_0))
   \<and> r64i_draws (unat (1 * 2 :: 64 word)) rx_seeded_0 = [2710289663541110522, 6300928355164331924]"
proof -
  have s: "supported SPS_FORMAT_S16" by (simp add: supported_def)
  have p: "(1 * 2 :: 64 word) \<noteq> 0" by simp
  have v: "r64i_draws (unat (1 * 2 :: 64 word)) rx_seeded_0 = [2710289663541110522, 6300928355164331924]"
    by (simp add: r64i_draws_eq draws_numeral rx_seeded_0_value ranval_def rot_def Let_def)
  from last_random_nonneg [OF s, of True 1 1 "- 1" rx_seeded_0] s p v
  show ?thesis by blast
qed

end
